theory Spec2Isabelle
  imports Main "HOL-Library.Char_ord" "HOL-Library.List_Lexorder" "HOL-Library.Multiset" "HOL-Library.Sublist"
begin

section \<open>Values, requests and the remote client\<close>

text \<open>
  Payloads and keyword arguments of \<^verbatim>\<open>fetch_garmin_data.py\<close> are JSON-shaped Python values.
  Floats do not occur in any request the program builds and are left out of the value type;
  a Python \<^verbatim>\<open>dict\<close> is an association list in insertion order.
\<close>

datatype json =
    JNull
  | JBool bool
  | JInt int
  | JStr string
  | JList "json list"
  | JDict "(string \<times> json) list"

type_synonym kwargs = "(string \<times> json) list"

text \<open>One remote invocation: the method name and its keyword arguments.\<close>

type_synonym call = "string \<times> kwargs"

datatype outcome = Returns json | Raises string

text \<open>
  Exceptions that reach the harvesting code. \<open>RemoteError t\<close> is an exception raised by the
  client's method whose \<^verbatim>\<open>str(exc)\<close> is \<open>t\<close>.
\<close>

datatype exn =
    AttributeError string
  | AssertionError
  | RemoteError string
  | ValueError string
  | OverflowError
  | IndexError
  | TypeError string

fun str_exc :: "exn \<Rightarrow> string" where
  "str_exc (AttributeError m) = ''Garmin client missing method: '' @ m"
| "str_exc AssertionError = ''''"
| "str_exc (RemoteError t) = t"
| "str_exc (ValueError t) = t"
| "str_exc OverflowError = ''date value out of range''"
| "str_exc IndexError = ''list index out of range''"
| "str_exc (TypeError t) = t"

text \<open>
  The client is an object with state of its own. Its answer to an invocation may depend on
  every invocation made before, so it is a function of the log of earlier calls; it also
  says how many clock ticks the invocation took.
\<close>

record client =
  has_method :: "string \<Rightarrow> bool"
  respond :: "call list \<Rightarrow> call \<Rightarrow> outcome \<times> nat"

text \<open>
  The part of the world a remote call touches: the log of remote invocations and the clock
  read by \<^verbatim>\<open>time.perf_counter\<close>. The record is extended with the files further down.
\<close>

record world =
  calls :: "call list"
  clock :: nat

definition invoke ::
  "client \<Rightarrow> string \<Rightarrow> kwargs \<Rightarrow> 'a world_scheme \<Rightarrow> outcome \<times> 'a world_scheme"
where
  "invoke c m kw w =
     (let (out, d) = respond c (calls w) (m, kw)
      in (out, w\<lparr>calls := calls w @ [(m, kw)], clock := clock w + d\<rparr>))"

section \<open>The retry wrapper\<close>

text \<open>Python's \<^verbatim>\<open>needle in text\<close> on strings.\<close>

fun contains :: "string \<Rightarrow> string \<Rightarrow> bool" where
  "contains needle [] = (needle = [])"
| "contains needle (c # cs) = (prefix needle (c # cs) \<or> contains needle cs)"

definition is_client_error :: "string \<Rightarrow> bool" where
  "is_client_error t = (contains ''400 Client Error'' t \<or> contains ''(400)'' t)"

text \<open>
  The body of \<^verbatim>\<open>for _ in range(retries + 1)\<close> in \<^verbatim>\<open>safe_call\<close>: the first argument counts
  the iterations left, \<open>started\<close> is the clock value read before the loop.
\<close>

fun safe_call_loop ::
  "client \<Rightarrow> string \<Rightarrow> kwargs \<Rightarrow> nat \<Rightarrow> exn option \<Rightarrow> nat \<Rightarrow> 'a world_scheme \<Rightarrow>
   (exn + json \<times> nat) \<times> 'a world_scheme"
where
  "safe_call_loop c m kw 0 last_exc started w =
     (case last_exc of None \<Rightarrow> (Inl AssertionError, w) | Some e \<Rightarrow> (Inl e, w))"
| "safe_call_loop c m kw (Suc n) last_exc started w =
     (case invoke c m kw w of
        (Returns r, w') \<Rightarrow> (Inr (r, clock w' - started), w')
      | (Raises t, w') \<Rightarrow>
          if is_client_error t then (Inl (RemoteError t), w')
          else safe_call_loop c m kw n (Some (RemoteError t)) started w')"

definition safe_call ::
  "client \<Rightarrow> string \<Rightarrow> kwargs \<Rightarrow> int \<Rightarrow> 'a world_scheme \<Rightarrow>
   (exn + json \<times> nat) \<times> 'a world_scheme"
where
  "safe_call c m kw retries w =
     (if \<not> has_method c m then (Inl (AttributeError m), w)
      else safe_call_loop c m kw (nat (retries + 1)) None (clock w) w)"

text \<open>
  The world after \<open>k\<close> attempts of the same call, and the outcome of attempt number \<open>k\<close>
  (counted from 0).
\<close>

fun after_attempts ::
  "client \<Rightarrow> string \<Rightarrow> kwargs \<Rightarrow> nat \<Rightarrow> 'a world_scheme \<Rightarrow> 'a world_scheme"
where
  "after_attempts c m kw 0 w = w"
| "after_attempts c m kw (Suc k) w = after_attempts c m kw k (snd (invoke c m kw w))"

definition attempt_outcome ::
  "client \<Rightarrow> string \<Rightarrow> kwargs \<Rightarrow> 'a world_scheme \<Rightarrow> nat \<Rightarrow> outcome"
where
  "attempt_outcome c m kw w k = fst (invoke c m kw (after_attempts c m kw k w))"

definition retryable :: "outcome \<Rightarrow> bool" where
  "retryable out = (case out of Returns r \<Rightarrow> False | Raises t \<Rightarrow> \<not> is_client_error t)"

definition attempts_made :: "'a world_scheme \<Rightarrow> 'a world_scheme \<Rightarrow> nat" where
  "attempts_made w w' = length (calls w') - length (calls w)"

section \<open>Signatures and call types\<close>

text \<open>
  The string operations of Python that \<^verbatim>\<open>parse_signature_params\<close> uses. Characters are bytes,
  so the white space removed by \<^verbatim>\<open>strip\<close> is the ASCII white space.
\<close>

definition is_space :: "char \<Rightarrow> bool" where
  "is_space c = (c \<in> set [CHR 0x09, CHR 0x0A, CHR 0x0B, CHR 0x0C, CHR 0x0D,
                            CHR 0x1C, CHR 0x1D, CHR 0x1E, CHR 0x1F, CHR 0x20])"

definition strip :: "string \<Rightarrow> string" where
  "strip s = rev (dropWhile is_space (rev (dropWhile is_space s)))"

text \<open>\<^verbatim>\<open>s.split(c, 1)[1]\<close> for a string that contains \<open>c\<close>, and \<^verbatim>\<open>s.split(c, 1)[0]\<close>.\<close>

definition after_first :: "char \<Rightarrow> string \<Rightarrow> string" where
  "after_first c s = tl (dropWhile (\<lambda>x. x \<noteq> c) s)"

definition before_first :: "char \<Rightarrow> string \<Rightarrow> string" where
  "before_first c s = takeWhile (\<lambda>x. x \<noteq> c) s"

text \<open>\<^verbatim>\<open>s.rsplit(c, 1)[0]\<close>: the text before the last \<open>c\<close>, all of \<open>s\<close> when there is none.\<close>

definition before_last :: "char \<Rightarrow> string \<Rightarrow> string" where
  "before_last c s = (if c \<in> set s then rev (tl (dropWhile (\<lambda>x. x \<noteq> c) (rev s))) else s)"

text \<open>\<^verbatim>\<open>s.split(c)\<close>: the pieces between the separators, at least one piece.\<close>

fun split_on :: "char \<Rightarrow> string \<Rightarrow> string list" where
  "split_on c [] = [[]]"
| "split_on c (x # xs) =
     (if x = c then [] # split_on c xs
      else (case split_on c xs of [] \<Rightarrow> [[x]] | p # ps \<Rightarrow> (x # p) # ps))"

definition parse_signature_params :: "string \<Rightarrow> string list" where
  "parse_signature_params signature =
     (if CHR ''('' \<notin> set signature \<or> CHR '')'' \<notin> set signature then []
      else let inside = strip (before_last CHR '')'' (after_first CHR ''('' signature))
           in if inside = [] then []
              else filter (\<lambda>name. name \<noteq> [])
                     (map (\<lambda>token. strip (before_first CHR ''='' token))
                        (filter (\<lambda>token. token \<noteq> []) (map strip (split_on CHR '','' inside)))))"

datatype call_type =
    Noarg | Daily | DateRange | Weekly | Paged | IdBased | Download | Special | Unsupported

definition ID_PARAM_TO_SEED_KEY :: "(string \<times> string) list" where
  "ID_PARAM_TO_SEED_KEY =
     [(''activity_id'', ''activity_ids''),
      (''workout_id'', ''workout_ids''),
      (''scheduled_workout_id'', ''scheduled_workout_ids''),
      (''device_id'', ''device_ids''),
      (''userProfileNumber'', ''user_profile_numbers''),
      (''gearUUID'', ''gear_uuids''),
      (''plan_id'', ''plan_ids'')]"

definition SPECIAL_METHODS :: "string list" where
  "SPECIAL_METHODS =
     [''get_lactate_threshold'', ''get_goals'', ''get_race_predictions'',
      ''get_progress_summary_between_dates'']"

definition EXCLUDED_METHODS :: "string list" where
  "EXCLUDED_METHODS = [''get_stats'', ''get_stress_data'', ''get_activities_by_date'']"

definition classify_call_type :: "string \<Rightarrow> string \<Rightarrow> call_type" where
  "classify_call_type method_name signature =
     (let params = parse_signature_params signature; params_set = set params
      in if prefix ''download_'' method_name then Download
         else if method_name \<in> set SPECIAL_METHODS then Special
         else if params = [] then Noarg
         else if prefix ''get_weekly_'' method_name \<or> ''weeks'' \<in> params_set then Weekly
         else if ''cdate'' \<in> params_set \<or> ''fordate'' \<in> params_set then Daily
         else if ''start'' \<in> params_set \<and> ''limit'' \<in> params_set then Paged
         else if ''startdate'' \<in> params_set \<or> ''enddate'' \<in> params_set \<or>
                 ''start_date'' \<in> params_set \<or> ''end_date'' \<in> params_set then DateRange
         else if (\<exists>p \<in> params_set. p \<in> fst ` set ID_PARAM_TO_SEED_KEY) then IdBased
         else Special)"

section \<open>Canonical request keys\<close>

text \<open>
  \<^verbatim>\<open>json.dumps(kwargs, ensure_ascii=False, sort_keys=True, separators=(",", ":"))\<close>:
  the compact rendering with the items of every dictionary sorted by key. With
  \<^verbatim>\<open>ensure_ascii=False\<close> the encoder escapes the quote, the backslash and the control
  characters below 0x20 only.
\<close>

definition digit_char :: "nat \<Rightarrow> char" where
  "digit_char n = char_of (48 + n)"

fun digits :: "nat \<Rightarrow> string" where
  "digits n = (if n < 10 then [digit_char n] else digits (n div 10) @ [digit_char (n mod 10)])"

declare digits.simps [simp del]

text \<open>Python's \<^verbatim>\<open>str\<close> of an integer.\<close>

definition str_int :: "int \<Rightarrow> string" where
  "str_int i = (if i < 0 then CHR ''-'' # digits (nat (- i)) else digits (nat i))"

definition hex_char :: "nat \<Rightarrow> char" where
  "hex_char n = (if n < 10 then char_of (48 + n) else char_of (87 + n))"

definition escape_char :: "char \<Rightarrow> string" where
  "escape_char c =
     (if c = CHR 0x22 then [CHR 0x5C, CHR 0x22]
      else if c = CHR 0x5C then [CHR 0x5C, CHR 0x5C]
      else if c = CHR 0x0A then [CHR 0x5C, CHR ''n'']
      else if c = CHR 0x0D then [CHR 0x5C, CHR ''r'']
      else if c = CHR 0x09 then [CHR 0x5C, CHR ''t'']
      else if c = CHR 0x08 then [CHR 0x5C, CHR ''b'']
      else if c = CHR 0x0C then [CHR 0x5C, CHR ''f'']
      else if of_char c < (32 :: nat)
        then [CHR 0x5C, CHR ''u'', CHR ''0'', CHR ''0'',
              hex_char (of_char c div 16), hex_char (of_char c mod 16)]
      else [c])"

definition quote :: "string \<Rightarrow> string" where
  "quote s = CHR 0x22 # concat (map escape_char s) @ [CHR 0x22]"

text \<open>\<^verbatim>\<open>sep.join(parts)\<close>.\<close>

fun join :: "string \<Rightarrow> string list \<Rightarrow> string" where
  "join sep [] = []"
| "join sep [p] = p"
| "join sep (p # q # ps) = p @ sep @ join sep (q # ps)"

primrec dumps :: "json \<Rightarrow> string" where
  "dumps JNull = ''null''"
| "dumps (JBool b) = (if b then ''true'' else ''false'')"
| "dumps (JInt i) = str_int i"
| "dumps (JStr s) = quote s"
| "dumps (JList xs) = ''['' @ join '','' (map dumps xs) @ '']''"
| "dumps (JDict kvs) =
     ''{'' @ join '','' (map (\<lambda>(k, t). quote k @ '':'' @ t)
                         (sort_key fst (map (map_prod id dumps) kvs))) @ ''}''"

definition request_key :: "kwargs \<Rightarrow> string" where
  "request_key kw = dumps (JDict kw)"

section \<open>Calendar dates\<close>

text \<open>
  The part of Python's \<^verbatim>\<open>datetime.date\<close> the program uses: construction (years 1 to 9999, a
  \<^verbatim>\<open>ValueError\<close> otherwise), adding a \<^verbatim>\<open>timedelta\<close> of whole days (an \<^verbatim>\<open>OverflowError\<close> when the
  result leaves the years 1 to 9999), comparison, \<^verbatim>\<open>isoformat\<close> and
  \<^verbatim>\<open>strptime(text, "%Y-%m-%d")\<close>.
\<close>

datatype date = Date (dyear: int) (dmonth: int) (dday: int)

definition is_leap :: "int \<Rightarrow> bool" where
  "is_leap y = (y mod 4 = 0 \<and> (y mod 100 \<noteq> 0 \<or> y mod 400 = 0))"

definition days_in_month :: "int \<Rightarrow> int \<Rightarrow> int" where
  "days_in_month y m =
     (if m = 2 then (if is_leap y then 29 else 28)
      else if m = 4 \<or> m = 6 \<or> m = 9 \<or> m = 11 then 30 else 31)"

text \<open>A day of the calendar, in any year; \<open>valid_date\<close> adds Python's range of years.\<close>

definition calendar_day :: "date \<Rightarrow> bool" where
  "calendar_day dt =
     (1 \<le> dmonth dt \<and> dmonth dt \<le> 12 \<and> 1 \<le> dday dt \<and>
      dday dt \<le> days_in_month (dyear dt) (dmonth dt))"

definition valid_date :: "date \<Rightarrow> bool" where
  "valid_date dt = (1 \<le> dyear dt \<and> dyear dt \<le> 9999 \<and> calendar_day dt)"

definition py_date :: "int \<Rightarrow> int \<Rightarrow> int \<Rightarrow> exn + date" where
  "py_date y m d =
     (if valid_date (Date y m d) then Inr (Date y m d) else Inl (ValueError ''date out of range''))"

fun next_day :: "date \<Rightarrow> date" where
  "next_day (Date y m d) =
     (if d < days_in_month y m then Date y m (d + 1)
      else if m < 12 then Date y (m + 1) 1
      else Date (y + 1) 1 1)"

fun prev_day :: "date \<Rightarrow> date" where
  "prev_day (Date y m d) =
     (if 1 < d then Date y m (d - 1)
      else if 1 < m then Date y (m - 1) (days_in_month y (m - 1))
      else Date (y - 1) 12 31)"

text \<open>\<^verbatim>\<open>dt + timedelta(days=n)\<close>.\<close>

definition add_days :: "int \<Rightarrow> date \<Rightarrow> exn + date" where
  "add_days n dt =
     (let r = (if 0 \<le> n then (next_day ^^ nat n) dt else (prev_day ^^ nat (- n)) dt)
      in if 1 \<le> dyear r \<and> dyear r \<le> 9999 then Inr r else Inl OverflowError)"

fun date_le :: "date \<Rightarrow> date \<Rightarrow> bool" where
  "date_le (Date y m d) (Date y' m' d') =
     (y < y' \<or> (y = y' \<and> (m < m' \<or> (m = m' \<and> d \<le> d'))))"

text \<open>\<^verbatim>\<open>min(a, b)\<close> on dates.\<close>

definition date_min :: "date \<Rightarrow> date \<Rightarrow> date" where
  "date_min a b = (if date_le a b then a else b)"

definition zfill :: "nat \<Rightarrow> string \<Rightarrow> string" where
  "zfill width s = replicate (width - length s) CHR ''0'' @ s"

definition isoformat :: "date \<Rightarrow> string" where
  "isoformat dt =
     zfill 4 (str_int (dyear dt)) @ ''-'' @ zfill 2 (str_int (dmonth dt)) @ ''-'' @
     zfill 2 (str_int (dday dt))"

definition is_digit :: "char \<Rightarrow> bool" where
  "is_digit c = (48 \<le> (of_char c :: nat) \<and> (of_char c :: nat) \<le> 57)"

definition nat_of_digits :: "string \<Rightarrow> nat" where
  "nat_of_digits s = foldl (\<lambda>a c. 10 * a + (of_char c - 48)) 0 s"

text \<open>
  The fields \<^verbatim>\<open>%Y\<close>, \<^verbatim>\<open>%m\<close> and \<^verbatim>\<open>%d\<close> of \<^verbatim>\<open>strptime\<close>: four digits; one or two digits from 1
  to 12 (\<^verbatim>\<open>1[0-2]|0[1-9]|[1-9]\<close>); one or two digits from 1 to 31, or a space and a digit
  (\<^verbatim>\<open>3[01]|[12]\d|0[1-9]|[1-9]| [1-9]\<close>).
\<close>

definition year_field :: "string \<Rightarrow> bool" where
  "year_field s = (length s = 4 \<and> list_all is_digit s)"

definition month_field :: "string \<Rightarrow> bool" where
  "month_field s =
     (list_all is_digit s \<and> (length s = 1 \<or> length s = 2) \<and>
      1 \<le> nat_of_digits s \<and> nat_of_digits s \<le> 12)"

definition day_field :: "string \<Rightarrow> bool" where
  "day_field s =
     ((list_all is_digit s \<and> (length s = 1 \<or> length s = 2) \<and>
       1 \<le> nat_of_digits s \<and> nat_of_digits s \<le> 31)
      \<or> (length s = 2 \<and> hd s = CHR '' '' \<and> is_digit (last s) \<and> last s \<noteq> CHR ''0''))"

definition strptime_ymd :: "string \<Rightarrow> exn + date" where
  "strptime_ymd s =
     (case split_on CHR ''-'' s of
        [ys, ms, ds] \<Rightarrow>
          if year_field ys \<and> month_field ms \<and> day_field ds
          then py_date (int (nat_of_digits ys)) (int (nat_of_digits ms))
                 (int (nat_of_digits (filter is_digit ds)))
          else Inl (ValueError ''time data does not match format'')
      | _ \<Rightarrow> Inl (ValueError ''time data does not match format''))"

text \<open>
  \<^verbatim>\<open>iter_year_dates\<close>, read off as a list: the loop from \<open>current\<close> to \<open>end_dt\<close>. An
  exception raised while the generator runs reaches the caller that builds the list.
\<close>

function iter_dates_from :: "date \<Rightarrow> date \<Rightarrow> exn + string list" where
  "iter_dates_from current end_dt =
     (if date_le current end_dt then
        (case add_days 1 current of
           Inl e \<Rightarrow> Inl e
         | Inr nxt \<Rightarrow>
             (case iter_dates_from nxt end_dt of
                Inl e \<Rightarrow> Inl e
              | Inr ds \<Rightarrow> Inr (isoformat current # ds)))
      else Inr [])"
  by pat_completeness auto
termination
proof (relation "measures [\<lambda>(c, e). nat (dyear e + 1 - dyear c),
                           \<lambda>(c, e). nat (12 - dmonth c),
                           \<lambda>(c, e). nat (31 - dday c)]")
  show "wf (measures [\<lambda>(c, e). nat (dyear e + 1 - dyear c),
                      \<lambda>(c, e). nat (12 - dmonth c),
                      \<lambda>(c, e). nat (31 - dday c)])"
    by simp
next
  fix current end_dt :: date and nxt :: date
  assume le: "date_le current end_dt" and nx: "add_days 1 current = Inr nxt"
  obtain y m d where c: "current = Date y m d" by (cases current)
  obtain y' m' d' where e: "end_dt = Date y' m' d'" by (cases end_dt)
  have n: "nxt = next_day (Date y m d)"
    using nx c by (simp add: add_days_def Let_def split: if_splits)
  have dim: "days_in_month y m \<le> 31" by (simp add: days_in_month_def)
  show "((nxt, end_dt), (current, end_dt))
        \<in> measures [\<lambda>(c, e). nat (dyear e + 1 - dyear c),
                     \<lambda>(c, e). nat (12 - dmonth c),
                     \<lambda>(c, e). nat (31 - dday c)]"
    using le dim unfolding n c e by auto
qed

definition iter_year_dates :: "int \<Rightarrow> exn + string list" where
  "iter_year_dates year =
     (case py_date year 1 1 of
        Inl e \<Rightarrow> Inl e
      | Inr current \<Rightarrow>
          (case py_date year 12 31 of
             Inl e \<Rightarrow> Inl e
           | Inr end_dt \<Rightarrow> iter_dates_from current end_dt))"

text \<open>
  \<^verbatim>\<open>chunk_date_range\<close>. With \<open>max_days = 0\<close> the source's loop never advances, so the loop is
  a partial function: \<open>None\<close> is a run that does not return.
\<close>

partial_function (option) chunk_loop ::
  "date \<Rightarrow> date \<Rightarrow> int \<Rightarrow> (string \<times> string) list \<Rightarrow> (exn + (string \<times> string) list) option"
where
  "chunk_loop current end_dt max_days chunks =
     (if date_le current end_dt then
        (case add_days (max_days - 1) current of
           Inl e \<Rightarrow> Some (Inl e)
         | Inr t \<Rightarrow>
             (case add_days 1 (date_min t end_dt) of
                Inl e \<Rightarrow> Some (Inl e)
              | Inr nxt \<Rightarrow>
                  chunk_loop nxt end_dt max_days
                    (chunks @ [(isoformat current, isoformat (date_min t end_dt))])))
      else Some (Inr chunks))"

declare chunk_loop.simps [code]

definition chunk_date_range ::
  "string \<Rightarrow> string \<Rightarrow> int \<Rightarrow> (exn + (string \<times> string) list) option"
where
  "chunk_date_range start_iso end_iso max_days =
     (case strptime_ymd start_iso of
        Inl e \<Rightarrow> Some (Inl e)
      | Inr start_dt \<Rightarrow>
          (case strptime_ymd end_iso of
             Inl e \<Rightarrow> Some (Inl e)
           | Inr end_dt \<Rightarrow> chunk_loop start_dt end_dt max_days []))"

section \<open>Seed context and call plans\<close>

record seed_context =
  ctx_year :: int
  start_date :: string
  end_date :: string
  dates :: "string list"
  activity_ids :: "json list"
  workout_ids :: "json list"
  scheduled_workout_ids :: "json list"
  device_ids :: "json list"
  user_profile_numbers :: "json list"
  gear_uuids :: "json list"
  plan_ids :: "json list"
  cached_method_data :: "(string \<times> json) list"

text \<open>\<^verbatim>\<open>ctx.get(seed_key, [])\<close> for the keys that hold id lists.\<close>

definition seed_list :: "seed_context \<Rightarrow> string \<Rightarrow> json list" where
  "seed_list ctx seed_key =
     (if seed_key = ''activity_ids'' then activity_ids ctx
      else if seed_key = ''workout_ids'' then workout_ids ctx
      else if seed_key = ''scheduled_workout_ids'' then scheduled_workout_ids ctx
      else if seed_key = ''device_ids'' then device_ids ctx
      else if seed_key = ''user_profile_numbers'' then user_profile_numbers ctx
      else if seed_key = ''gear_uuids'' then gear_uuids ctx
      else if seed_key = ''plan_ids'' then plan_ids ctx
      else [])"

text \<open>\<^verbatim>\<open>d[k] = v\<close> on a dictionary in insertion order.\<close>

definition dict_set :: "string \<Rightarrow> 'v \<Rightarrow> (string \<times> 'v) list \<Rightarrow> (string \<times> 'v) list" where
  "dict_set k v d =
     (if k \<in> fst ` set d then map (\<lambda>(k', v'). if k' = k then (k', v) else (k', v')) d
      else d @ [(k, v)])"

definition run_special_method_calls :: "string \<Rightarrow> seed_context \<Rightarrow> kwargs list" where
  "run_special_method_calls method ctx =
     (if method = ''get_lactate_threshold'' then
        [[(''latest'', JBool False), (''start_date'', JStr (start_date ctx)),
          (''end_date'', JStr (end_date ctx)), (''aggregation'', JStr ''daily'')]]
      else if method = ''get_goals'' then
        [[(''status'', JStr ''active''), (''start'', JInt 0), (''limit'', JInt 100)],
         [(''status'', JStr ''completed''), (''start'', JInt 0), (''limit'', JInt 100)]]
      else if method = ''get_race_predictions'' then
        [[(''startdate'', JStr (start_date ctx)), (''enddate'', JStr (end_date ctx)),
          (''_type'', JStr ''running'')]]
      else if method = ''get_progress_summary_between_dates'' then
        [[(''startdate'', JStr (start_date ctx)), (''enddate'', JStr (end_date ctx)),
          (''metric'', JStr ''distance''), (''groupbyactivities'', JBool True)]]
      else [])"

text \<open>The keyword arguments of the \<^verbatim>\<open>date_range\<close> branch, built key by key.\<close>

definition date_range_kwargs :: "string set \<Rightarrow> seed_context \<Rightarrow> kwargs" where
  "date_range_kwargs params_set ctx =
     (let k1 = (if ''startdate'' \<in> params_set
                then dict_set ''startdate'' (JStr (start_date ctx)) [] else []);
          k2 = (if ''enddate'' \<in> params_set
                then dict_set ''enddate'' (JStr (end_date ctx)) k1 else k1);
          k3 = (if ''start_date'' \<in> params_set
                then dict_set ''start_date'' (JStr (start_date ctx)) k2 else k2);
          k4 = (if ''end_date'' \<in> params_set
                then dict_set ''end_date'' (JStr (end_date ctx)) k3 else k3)
      in if ''start'' \<in> params_set \<and> ''end'' \<in> params_set
         then dict_set ''end'' (JStr (end_date ctx)) (dict_set ''start'' (JStr (start_date ctx)) k4)
         else k4)"

definition weekly_kwargs :: "string set \<Rightarrow> seed_context \<Rightarrow> kwargs" where
  "weekly_kwargs params_set ctx =
     (let k1 = (if ''start'' \<in> params_set
                then dict_set ''start'' (JStr (start_date ctx)) [] else []);
          k2 = (if ''end'' \<in> params_set
                then dict_set ''end'' (JStr (end_date ctx)) k1 else k1)
      in if ''weeks'' \<in> params_set then dict_set ''weeks'' (JInt 52) k2 else k2)"

text \<open>
  \<^verbatim>\<open>build_calls_for_method\<close>: the planned calls and the skip reason. \<open>None\<close> is a run that does
  not return (the window loop), \<open>Inl\<close> an exception.
\<close>

definition build_calls_for_method ::
  "string \<Rightarrow> string \<Rightarrow> call_type \<Rightarrow> seed_context \<Rightarrow> bool \<Rightarrow>
   (exn + kwargs list \<times> string option) option"
where
  "build_calls_for_method method signature ct ctx include_downloads =
     (let params = parse_signature_params signature; params_set = set params
      in if ct = Download \<and> \<not> include_downloads then Some (Inr ([], Some ''download_disabled''))
         else if ct = Noarg then Some (Inr ([[]], None))
         else if ct = Daily then
           (if ''cdate'' \<in> params_set
              then Some (Inr (map (\<lambda>d. [(''cdate'', JStr d)]) (dates ctx), None))
            else if ''fordate'' \<in> params_set
              then Some (Inr (map (\<lambda>d. [(''fordate'', JStr d)]) (dates ctx), None))
            else (case params of
                    [] \<Rightarrow> Some (Inl IndexError)
                  | p # ps \<Rightarrow> Some (Inr (map (\<lambda>d. [(p, JStr d)]) (dates ctx), None))))
         else if ct = DateRange then
           (let kwargs = date_range_kwargs params_set ctx
            in if kwargs = [] then Some (Inr ([], Some ''date_range_unresolved''))
               else if method = ''get_body_battery'' \<and> ''startdate'' \<in> fst ` set kwargs \<and>
                       ''enddate'' \<in> fst ` set kwargs then
                 (case chunk_date_range (start_date ctx) (end_date ctx) 31 of
                    None \<Rightarrow> None
                  | Some (Inl e) \<Rightarrow> Some (Inl e)
                  | Some (Inr chunks) \<Rightarrow>
                      Some (Inr (map (\<lambda>(s, e). [(''startdate'', JStr s), (''enddate'', JStr e)])
                                   chunks, None)))
               else Some (Inr ([kwargs], None)))
         else if ct = Weekly then Some (Inr ([weekly_kwargs params_set ctx], None))
         else if ct = Paged then Some (Inr ([], None))
         else if ct = IdBased \<or> ct = Download then
           (case filter (\<lambda>(param, seed_key). param \<in> params_set) ID_PARAM_TO_SEED_KEY of
              [] \<Rightarrow> Some (Inr ([], Some ''id_param_not_mapped''))
            | (param, seed_key) # rest \<Rightarrow>
                (let ids = seed_list ctx seed_key
                 in if ids = [] then Some (Inr ([], Some (''missing_seed:'' @ seed_key)))
                    else Some (Inr (map (\<lambda>id_value. [(param, id_value)]) ids, None))))
         else if ct = Special then
           (let calls = run_special_method_calls method ctx
            in if calls = [] then
                 (if params = [] then Some (Inr ([[]], None))
                  else Some (Inr ([], Some ''special_unresolved'')))
               else Some (Inr (calls, None)))
         else Some (Inr ([], Some ''unsupported_call_type'')))"

section \<open>Envelopes and the per-method harvest\<close>

record method_spec =
  spec_section :: string
  section_slug :: string
  spec_method :: string
  signature :: string

datatype status = Pending | Success | Partial | Failed | Skipped

text \<open>
  Durations are clock ticks: the source keeps seconds rounded to three decimals, the model
  counts whole ticks of the world's clock.
\<close>

record stats =
  attempted_calls :: nat
  success_calls :: nat
  failed_calls :: nat
  duration_seconds :: nat

text \<open>
  An envelope whose fields have the types the program writes. A data item is the pair of
  \<^verbatim>\<open>request\<close> and \<^verbatim>\<open>response\<close>; an error item holds the \<^verbatim>\<open>error\<close> text and, when the error
  belongs to a call, its \<^verbatim>\<open>request\<close>.
\<close>

record envelope =
  env_method :: string
  env_section :: string
  env_year :: int
  env_call_type :: call_type
  status :: status
  request_args :: "kwargs list"
  data :: "(kwargs \<times> json) list"
  errors :: "(kwargs option \<times> string) list"
  stats :: stats

text \<open>
  The files of one year's data directory: the envelope file of each method, at
  \<^verbatim>\<open>data/<section_slug>/<method>.json\<close>, and the manifest. A file that does not parse as a
  JSON object is \<open>Corrupt\<close>. Writing is assumed not to fail.
\<close>

datatype stored_file = Corrupt | Stored envelope

type_synonym path = "string \<times> string"

record manifest_item =
  item_method :: string
  item_section :: string
  item_section_slug :: string
  item_call_type :: call_type
  item_status :: status
  output_file :: path
  item_stats :: stats
  error_count :: nat

record manifest =
  manifest_year :: int
  total_methods :: nat
  status_counts :: "status \<Rightarrow> nat"
  methods :: "manifest_item list"

record hworld = world +
  files :: "path \<Rightarrow> stored_file option"
  manifest_file :: "manifest option"

definition write_json :: "path option \<Rightarrow> envelope \<Rightarrow> hworld \<Rightarrow> hworld" where
  "write_json output e w =
     (case output of None \<Rightarrow> w | Some p \<Rightarrow> w\<lparr>files := (files w)(p \<mapsto> Stored e)\<rparr>)"

definition read_json_if_exists :: "path \<Rightarrow> hworld \<Rightarrow> envelope option" where
  "read_json_if_exists p w =
     (case files w p of Some (Stored e) \<Rightarrow> Some e | _ \<Rightarrow> None)"

text \<open>
  On the values of \<open>json\<close> the source's \<^verbatim>\<open>serialize_response_data\<close> rebuilds its argument;
  byte strings and other Python objects are outside \<open>json\<close>.
\<close>

definition serialize_response_data :: "json \<Rightarrow> json" where
  "serialize_response_data v = v"

definition get_completed_request_keys :: "envelope \<Rightarrow> string list" where
  "get_completed_request_keys e = map (\<lambda>(req, resp). request_key req) (data e)"

fun first_list_under :: "(string \<times> json) list \<Rightarrow> string list \<Rightarrow> json list" where
  "first_list_under d [] = []"
| "first_list_under d (k # ks) =
     (case map_of d k of Some (JList xs) \<Rightarrow> xs | _ \<Rightarrow> first_list_under d ks)"

definition extract_items :: "json \<Rightarrow> json list" where
  "extract_items payload =
     (case payload of
        JList xs \<Rightarrow> xs
      | JDict d \<Rightarrow>
          first_list_under d
            [''items'', ''activities'', ''activityList'', ''workouts'', ''trainingPlanList'',
             ''goals'']
      | _ \<Rightarrow> [])"

text \<open>
  \<^verbatim>\<open>int(v)\<close> for the values a page size can have here. The text of a string is not parsed:
  no caller passes one.
\<close>

definition py_int :: "json \<Rightarrow> exn + int" where
  "py_int v =
     (case v of
        JInt n \<Rightarrow> Inr n
      | JBool b \<Rightarrow> Inr (if b then 1 else 0)
      | JStr s \<Rightarrow> Inl (ValueError ''invalid literal for int()'')
      | _ \<Rightarrow> Inl (TypeError ''int() argument must be a string or a number''))"

text \<open>The page size \<^verbatim>\<open>int(base_kwargs.get("limit", 100))\<close>.\<close>

definition page_limit :: "kwargs \<Rightarrow> exn + int" where
  "page_limit base_kwargs =
     py_int (case map_of base_kwargs ''limit'' of None \<Rightarrow> JInt 100 | Some v \<Rightarrow> v)"

text \<open>
  The loop of \<^verbatim>\<open>execute_paged_method\<close>. The callback \<open>on_chunk_done\<close> acts on a state of the
  caller's (the envelope) and on the world. With a page size of 0 or less the cursor never
  advances, so the loop is a partial function.
\<close>

partial_function (option) paged_loop ::
  "client \<Rightarrow> string \<Rightarrow> kwargs \<Rightarrow> int \<Rightarrow>
   (kwargs \<Rightarrow> json option \<Rightarrow> string option \<Rightarrow> nat \<Rightarrow> 's \<Rightarrow> hworld \<Rightarrow> 's \<times> hworld) \<Rightarrow>
   int \<Rightarrow> nat \<Rightarrow> 's \<Rightarrow> hworld \<Rightarrow> (nat \<times> 's \<times> hworld) option"
where
  "paged_loop c method base_kwargs limit on_chunk_done page_start elapsed st w =
     (if page_start < 20000 then
        (let kwargs = dict_set ''limit'' (JInt limit)
                        (dict_set ''start'' (JInt page_start) base_kwargs)
         in case safe_call c method kwargs 1 w of
              (Inr (result, took), w1) \<Rightarrow>
                (case on_chunk_done kwargs (Some (serialize_response_data result)) None took st w1 of
                   (st2, w2) \<Rightarrow>
                     if extract_items result = [] then Some (elapsed + took, st2, w2)
                     else if int (length (extract_items result)) < limit
                       then Some (elapsed + took, st2, w2)
                     else paged_loop c method base_kwargs limit on_chunk_done
                            (page_start + limit) (elapsed + took) st2 w2)
            | (Inl exc, w1) \<Rightarrow>
                (case on_chunk_done kwargs None (Some (str_exc exc)) 0 st w1 of
                   (st2, w2) \<Rightarrow> Some (elapsed, st2, w2)))
      else Some (elapsed, st, w))"

declare paged_loop.simps [code]

definition execute_paged_method ::
  "client \<Rightarrow> string \<Rightarrow> kwargs \<Rightarrow> int \<Rightarrow>
   (kwargs \<Rightarrow> json option \<Rightarrow> string option \<Rightarrow> nat \<Rightarrow> 's \<Rightarrow> hworld \<Rightarrow> 's \<times> hworld) \<Rightarrow>
   's \<Rightarrow> hworld \<Rightarrow> (exn + nat \<times> 's \<times> hworld) option"
where
  "execute_paged_method c method base_kwargs start_from on_chunk_done st w =
     (case page_limit base_kwargs of
        Inl e \<Rightarrow> Some (Inl e)
      | Inr limit \<Rightarrow>
          map_option Inr
            (paged_loop c method base_kwargs limit on_chunk_done (max 0 start_from) 0 st w))"

definition fresh_envelope :: "method_spec \<Rightarrow> seed_context \<Rightarrow> call_type \<Rightarrow> envelope" where
  "fresh_envelope spec ctx ct =
     \<lparr>env_method = spec_method spec, env_section = spec_section spec, env_year = ctx_year ctx,
      env_call_type = ct, status = Pending, request_args = [], data = [], errors = [],
      stats = \<lparr>attempted_calls = 0, success_calls = 0, failed_calls = 0, duration_seconds = 0\<rparr>\<rparr>"

text \<open>Recounting the three counters from the lists, as the source does after every change.\<close>

definition recount :: "envelope \<Rightarrow> envelope" where
  "recount e =
     e\<lparr>stats := (stats e)\<lparr>attempted_calls := length (request_args e),
                            success_calls := length (data e),
                            failed_calls := length (errors e)\<rparr>\<rparr>"

text \<open>The envelope the run starts from: the prior one when it is this method's, else a fresh one.\<close>

definition start_envelope ::
  "method_spec \<Rightarrow> seed_context \<Rightarrow> call_type \<Rightarrow> envelope option \<Rightarrow> envelope"
where
  "start_envelope spec ctx ct existing_envelope =
     recount
       (case existing_envelope of
          None \<Rightarrow> fresh_envelope spec ctx ct
        | Some e \<Rightarrow>
            if env_method e = spec_method spec
            then e\<lparr>env_method := spec_method spec, env_section := spec_section spec,
                   env_year := ctx_year ctx, env_call_type := ct\<rparr>
            else fresh_envelope spec ctx ct)"

text \<open>The status derived from the counters at the end of the sequential path.\<close>

definition final_status :: "stats \<Rightarrow> status" where
  "final_status s =
     (if success_calls s > 0 \<and> failed_calls s = 0 then Success
      else if success_calls s > 0 then Partial
      else if attempted_calls s = 0 then Skipped
      else Failed)"

text \<open>The status derived at the end of the paged path.\<close>

definition paged_status :: "stats \<Rightarrow> status" where
  "paged_status s =
     (if success_calls s > 0 \<and> failed_calls s = 0 then Success
      else if success_calls s > 0 then Partial
      else Failed)"

text \<open>\<^verbatim>\<open>isinstance(v, int)\<close> on a request's \<^verbatim>\<open>start\<close>; a Python \<^verbatim>\<open>bool\<close> is an \<^verbatim>\<open>int\<close>.\<close>

definition int_start :: "kwargs \<Rightarrow> int option" where
  "int_start req =
     (case map_of req ''start'' of
        Some (JInt n) \<Rightarrow> Some n
      | Some (JBool b) \<Rightarrow> Some (if b then 1 else 0)
      | _ \<Rightarrow> None)"

text \<open>The resume cursor computed from the successful pages of the envelope.\<close>

definition resume_start_of :: "envelope \<Rightarrow> kwargs \<Rightarrow> exn + int" where
  "resume_start_of e extra =
     (let starts = List.map_filter (\<lambda>(req, resp). int_start req) (data e)
      in if starts = [] then Inr 0
         else (case page_limit extra of
                 Inl exc \<Rightarrow> Inl exc
               | Inr limit \<Rightarrow> Inr (Max (set starts) + limit)))"

definition on_paged_chunk_done ::
  "path option \<Rightarrow> kwargs \<Rightarrow> json option \<Rightarrow> string option \<Rightarrow> nat \<Rightarrow> envelope \<Rightarrow> hworld \<Rightarrow>
   envelope \<times> hworld"
where
  "on_paged_chunk_done output req response error took e w =
     (let e1 = e\<lparr>request_args := request_args e @ [req]\<rparr>;
          e2 = (case error of
                  None \<Rightarrow> e1\<lparr>data := data e1 @ [(req, case response of None \<Rightarrow> JNull | Some r \<Rightarrow> r)]\<rparr>
                | Some t \<Rightarrow> e1\<lparr>errors := errors e1 @ [(Some req, t)]\<rparr>);
          e3 = recount e2;
          e4 = e3\<lparr>stats := (stats e3)\<lparr>duration_seconds := duration_seconds (stats e3) + took\<rparr>\<rparr>
      in (e4, write_json output e4 w))"

text \<open>One iteration of the loop over the pending calls.\<close>

definition execute_call ::
  "client \<Rightarrow> string \<Rightarrow> path option \<Rightarrow> kwargs \<Rightarrow> envelope \<Rightarrow> hworld \<Rightarrow> envelope \<times> hworld"
where
  "execute_call c method output kwargs e w =
     (case safe_call c method kwargs 1 w of
        (Inr (result, elapsed), w1) \<Rightarrow>
          (let e1 = e\<lparr>request_args := request_args e @ [kwargs],
                       data := data e @ [(kwargs, serialize_response_data result)]\<rparr>;
               e2 = e1\<lparr>stats := (stats e1)\<lparr>duration_seconds := duration_seconds (stats e1) + elapsed\<rparr>\<rparr>;
               e3 = recount e2
           in (e3, write_json output e3 w1))
      | (Inl exc, w1) \<Rightarrow>
          (let elapsed = clock w1 - clock w;
               e1 = e\<lparr>request_args := request_args e @ [kwargs],
                       errors := errors e @ [(Some kwargs, str_exc exc)]\<rparr>;
               e2 = e1\<lparr>stats := (stats e1)\<lparr>duration_seconds := duration_seconds (stats e1) + elapsed\<rparr>\<rparr>;
               e3 = recount e2
           in (e3, write_json output e3 w1)))"

fun execute_calls ::
  "client \<Rightarrow> string \<Rightarrow> path option \<Rightarrow> kwargs list \<Rightarrow> envelope \<Rightarrow> hworld \<Rightarrow> envelope \<times> hworld"
where
  "execute_calls c method output [] e w = (e, w)"
| "execute_calls c method output (kwargs # rest) e w =
     (case execute_call c method output kwargs e w of
        (e1, w1) \<Rightarrow> execute_calls c method output rest e1 w1)"

definition seed_cache_hit :: "seed_context \<Rightarrow> string \<Rightarrow> envelope \<Rightarrow> json option" where
  "seed_cache_hit ctx method e =
     (case map_of (cached_method_data ctx) method of
        None \<Rightarrow> None
      | Some cached_data \<Rightarrow>
          if cached_data \<noteq> JNull \<and> cached_data \<noteq> JDict [] \<and> cached_data \<noteq> JList [] \<and>
             success_calls (stats e) = 0
          then Some cached_data else None)"

definition paged_extra :: "string \<Rightarrow> kwargs" where
  "paged_extra method =
     (let extra = (if method = ''get_activities'' then dict_set ''limit'' (JInt 100) [] else [])
      in if method = ''get_workouts'' then dict_set ''limit'' (JInt 100) extra else extra)"

definition execute_method_for_year ::
  "client \<Rightarrow> method_spec \<Rightarrow> seed_context \<Rightarrow> bool \<Rightarrow> path option \<Rightarrow> envelope option \<Rightarrow> hworld \<Rightarrow>
   ((exn + envelope) \<times> hworld) option"
where
  "execute_method_for_year c spec ctx include_downloads output existing_envelope w =
     (let method = spec_method spec;
          ct = classify_call_type method (signature spec);
          envelope = start_envelope spec ctx ct existing_envelope;
          completed_keys = get_completed_request_keys envelope
      in case seed_cache_hit ctx method envelope of
           Some cached_data \<Rightarrow>
             (let e1 = envelope\<lparr>request_args := request_args envelope @ [[(''source'', JStr ''seed_cache'')]],
                                data := data envelope @
                                  [([(''source'', JStr ''seed_cache'')], serialize_response_data cached_data)]\<rparr>;
                  e2 = e1\<lparr>stats := (stats e1)\<lparr>attempted_calls := length (request_args e1),
                                                  success_calls := length (data e1)\<rparr>,
                          status := Success\<rparr>
              in Some (Inr e2, write_json output e2 w))
         | None \<Rightarrow>
             if ct = Paged then
               (let extra = paged_extra method
                in case resume_start_of envelope extra of
                     Inl exc \<Rightarrow> Some (Inl exc, w)
                   | Inr resume_start \<Rightarrow>
                       (case execute_paged_method c method extra resume_start
                               (on_paged_chunk_done output) envelope w of
                          None \<Rightarrow> None
                        | Some (Inl exc) \<Rightarrow> Some (Inl exc, w)
                        | Some (Inr (elapsed, e1, w1)) \<Rightarrow>
                            Some (Inr (e1\<lparr>status := paged_status (stats e1)\<rparr>), w1)))
             else
               (case build_calls_for_method method (signature spec) ct ctx include_downloads of
                  None \<Rightarrow> None
                | Some (Inl exc) \<Rightarrow> Some (Inl exc, w)
                | Some (Inr (call_kwargs_list, skip_reason)) \<Rightarrow>
                    (case (skip_reason, call_kwargs_list) of
                       (Some reason, []) \<Rightarrow>
                         (let e1 = recount (envelope\<lparr>status := Skipped,
                                                      errors := errors envelope @ [(None, reason)]\<rparr>)
                          in Some (Inr e1, write_json output e1 w))
                     | _ \<Rightarrow>
                         (let pending_calls =
                                filter (\<lambda>kwargs. request_key kwargs \<notin> set completed_keys) call_kwargs_list
                          in case execute_calls c method output pending_calls envelope w of
                               (e1, w1) \<Rightarrow> Some (Inr (e1\<lparr>status := final_status (stats e1)\<rparr>), w1)))))"

section \<open>Building the seed context\<close>

definition is_dict :: "json \<Rightarrow> bool" where
  "is_dict v = (case v of JDict d \<Rightarrow> True | _ \<Rightarrow> False)"

text \<open>\<^verbatim>\<open>d.get(k)\<close> on a value known to be a dictionary: \<^verbatim>\<open>None\<close> for a missing key.\<close>

definition dict_get :: "json \<Rightarrow> string \<Rightarrow> json" where
  "dict_get v k =
     (case v of JDict d \<Rightarrow> (case map_of d k of None \<Rightarrow> JNull | Some x \<Rightarrow> x) | _ \<Rightarrow> JNull)"

text \<open>Python's truth value of a JSON value.\<close>

definition truthy :: "json \<Rightarrow> bool" where
  "truthy v =
     (case v of
        JNull \<Rightarrow> False
      | JBool b \<Rightarrow> b
      | JInt n \<Rightarrow> n \<noteq> 0
      | JStr s \<Rightarrow> s \<noteq> []
      | JList xs \<Rightarrow> xs \<noteq> []
      | JDict d \<Rightarrow> d \<noteq> [])"

definition get_activity_date_str :: "json \<Rightarrow> string" where
  "get_activity_date_str activity =
     (let raw = (if truthy (dict_get activity ''startTimeLocal'')
                 then dict_get activity ''startTimeLocal''
                 else dict_get activity ''startTimeGMT'')
      in case raw of JStr s \<Rightarrow> (if s \<noteq> [] then take 10 s else []) | _ \<Rightarrow> [])"

text \<open>The values of key \<open>k\<close> in the dictionaries of a list that pass the test \<open>keep\<close>.\<close>

definition ids_of :: "(json \<Rightarrow> bool) \<Rightarrow> string \<Rightarrow> json list \<Rightarrow> json list" where
  "ids_of keep k xs =
     map (\<lambda>a. dict_get a k) (filter (\<lambda>a. is_dict a \<and> keep (dict_get a k)) xs)"

definition not_none :: "json \<Rightarrow> bool" where
  "not_none v = (v \<noteq> JNull)"

text \<open>
  \<^verbatim>\<open>sorted(set(xs))\<close>. Lists and dictionaries are unhashable; \<^verbatim>\<open>True\<close> and \<^verbatim>\<open>1\<close> are equal and
  the set keeps the first of them; numbers sort among themselves and strings among
  themselves, and any other list of two or more distinct values raises \<^verbatim>\<open>TypeError\<close>.
\<close>

definition hashable :: "json \<Rightarrow> bool" where
  "hashable v = (case v of JList xs \<Rightarrow> False | JDict d \<Rightarrow> False | _ \<Rightarrow> True)"

definition is_num :: "json \<Rightarrow> bool" where
  "is_num v = (case v of JBool b \<Rightarrow> True | JInt n \<Rightarrow> True | _ \<Rightarrow> False)"

definition is_str :: "json \<Rightarrow> bool" where
  "is_str v = (case v of JStr s \<Rightarrow> True | _ \<Rightarrow> False)"

definition num_of :: "json \<Rightarrow> int" where
  "num_of v = (case v of JBool b \<Rightarrow> (if b then 1 else 0) | JInt n \<Rightarrow> n | _ \<Rightarrow> 0)"

definition str_of :: "json \<Rightarrow> string" where
  "str_of v = (case v of JStr s \<Rightarrow> s | _ \<Rightarrow> [])"

definition py_eq :: "json \<Rightarrow> json \<Rightarrow> bool" where
  "py_eq a b = (if is_num a \<and> is_num b then num_of a = num_of b else a = b)"

definition py_set :: "json list \<Rightarrow> json list" where
  "py_set xs = foldl (\<lambda>acc x. if (\<exists>y \<in> set acc. py_eq y x) then acc else acc @ [x]) [] xs"

definition py_sorted_set :: "json list \<Rightarrow> exn + json list" where
  "py_sorted_set xs =
     (if \<not> list_all hashable xs then Inl (TypeError ''unhashable type'')
      else let s = py_set xs
           in if length s \<le> 1 then Inr s
              else if list_all is_num s then Inr (sort_key num_of s)
              else if list_all is_str s then Inr (sort_key str_of s)
              else Inl (TypeError ''not supported between instances''))"

text \<open>
  \<^verbatim>\<open>fetch_activities_for_year\<close>. The loop state is the page number, the count of empty pages
  in a row and the activities kept so far; a failed call ends the loop with what was kept.
\<close>

definition in_year :: "int \<Rightarrow> json \<Rightarrow> bool" where
  "in_year year act = (is_dict act \<and> prefix (str_int year @ ''-'') (get_activity_date_str act))"

definition is_older :: "int \<Rightarrow> json \<Rightarrow> bool" where
  "is_older year act =
     (is_dict act \<and> \<not> prefix (str_int year @ ''-'') (get_activity_date_str act) \<and>
      get_activity_date_str act \<noteq> [] \<and> get_activity_date_str act < str_int year @ ''-01-01'')"

function activities_loop ::
  "client \<Rightarrow> int \<Rightarrow> nat \<Rightarrow> nat \<Rightarrow> json list \<Rightarrow> 'a world_scheme \<Rightarrow> json list \<times> 'a world_scheme"
where
  "activities_loop c year page empty_pages activities w =
     (if page < 500 then
        (case safe_call c ''get_activities''
                [(''start'', JInt (int page * 100)), (''limit'', JInt 100)] 1 w of
           (Inl exc, w1) \<Rightarrow> (activities, w1)
         | (Inr (batch, took), w1) \<Rightarrow>
             (case batch of
                JList (a # as) \<Rightarrow>
                  (let hits = filter (in_year year) (a # as);
                       has_older = (\<exists>act \<in> set (a # as). is_older year act)
                   in if hits = [] \<and> has_older then (activities @ hits, w1)
                      else activities_loop c year (page + 1) 0 (activities @ hits) w1)
              | _ \<Rightarrow>
                  if empty_pages + 1 \<ge> 2 then (activities, w1)
                  else activities_loop c year (page + 1) (empty_pages + 1) activities w1))
      else (activities, w))"
  by pat_completeness auto
termination
  by (relation "measure (\<lambda>(c, year, page, empty_pages, activities, w). 500 - page)") auto

definition fetch_activities_for_year ::
  "client \<Rightarrow> int \<Rightarrow> 'a world_scheme \<Rightarrow> json list \<times> 'a world_scheme"
where
  "fetch_activities_for_year c year w = activities_loop c year 0 0 [] w"

text \<open>\<^verbatim>\<open>fetch_all_workouts\<close>: a failed call is not caught here and reaches the caller.\<close>

function workouts_loop ::
  "client \<Rightarrow> nat \<Rightarrow> json list \<Rightarrow> 'a world_scheme \<Rightarrow> (exn + json list) \<times> 'a world_scheme"
where
  "workouts_loop c start workouts w =
     (if start < 20000 then
        (case safe_call c ''get_workouts''
                [(''start'', JInt (int start)), (''limit'', JInt 100)] 1 w of
           (Inl exc, w1) \<Rightarrow> (Inl exc, w1)
         | (Inr (payload, took), w1) \<Rightarrow>
             (let items = extract_items payload
              in if items = [] then (Inr workouts, w1)
                 else if length items < 100 then (Inr (workouts @ filter is_dict items), w1)
                 else workouts_loop c (start + 100) (workouts @ filter is_dict items) w1))
      else (Inr workouts, w))"
  by pat_completeness auto
termination
  by (relation "measure (\<lambda>(c, start, workouts, w). 20000 - start)") auto

definition fetch_all_workouts ::
  "client \<Rightarrow> 'a world_scheme \<Rightarrow> (exn + json list) \<times> 'a world_scheme"
where
  "fetch_all_workouts c w = workouts_loop c 0 [] w"

text \<open>A bootstrap call with no arguments and its \<^verbatim>\<open>except\<close> default.\<close>

definition bootstrap_call ::
  "client \<Rightarrow> string \<Rightarrow> json \<Rightarrow> 'a world_scheme \<Rightarrow> json \<times> 'a world_scheme"
where
  "bootstrap_call c method fallback w =
     (case safe_call c method [] 1 w of
        (Inl exc, w1) \<Rightarrow> (fallback, w1)
      | (Inr (result, took), w1) \<Rightarrow> (result, w1))"

definition fetch_gear ::
  "client \<Rightarrow> json list \<Rightarrow> 'a world_scheme \<Rightarrow> json list \<times> 'a world_scheme"
where
  "fetch_gear c profile_numbers w =
     (case profile_numbers of
        [] \<Rightarrow> ([], w)
      | n # ns \<Rightarrow>
          (case safe_call c ''get_gear'' [(''userProfileNumber'', n)] 1 w of
             (Inl exc, w1) \<Rightarrow> ([], w1)
           | (Inr (gear_payload, took), w1) \<Rightarrow>
               (case gear_payload of
                  JList xs \<Rightarrow> (filter is_dict xs, w1)
                | JDict d \<Rightarrow> (filter is_dict (extract_items (JDict d)), w1)
                | _ \<Rightarrow> ([], w1))))"

definition profile_numbers_of :: "json \<Rightarrow> json list" where
  "profile_numbers_of profile =
     (if is_dict profile
      then filter not_none [dict_get profile ''userProfileNumber'', dict_get profile ''profileId'']
      else [])"

definition plan_ids_of :: "json \<Rightarrow> json list" where
  "plan_ids_of training_plans =
     (if is_dict training_plans then
        (case dict_get training_plans ''trainingPlanList'' of
           JList plans \<Rightarrow> ids_of not_none ''trainingPlanId'' plans
         | _ \<Rightarrow> [])
      else [])"

definition build_seed_context ::
  "client \<Rightarrow> int \<Rightarrow> 'a world_scheme \<Rightarrow> (exn + seed_context) \<times> 'a world_scheme"
where
  "build_seed_context c year w =
     (case iter_year_dates year of
        Inl exc \<Rightarrow> (Inl exc, w)
      | Inr year_dates \<Rightarrow>
          (let (activities, w1) = fetch_activities_for_year c year w;
               (workouts_result, w2) = fetch_all_workouts c w1;
               workouts = (case workouts_result of Inl exc \<Rightarrow> [] | Inr ws \<Rightarrow> ws);
               (devices, w3) = bootstrap_call c ''get_devices'' (JList []) w2;
               device_ids1 = (case devices of
                                JList ds \<Rightarrow> ids_of not_none ''deviceId'' ds | _ \<Rightarrow> []);
               (profile, w4) = bootstrap_call c ''get_user_profile'' (JDict []) w3;
               (last_used, w5) = bootstrap_call c ''get_device_last_used'' (JDict []) w4;
               profile_numbers1 =
                 profile_numbers_of profile @
                 (if is_dict last_used
                  then filter not_none [dict_get last_used ''userProfileNumber''] else []);
               device_ids2 =
                 device_ids1 @
                 (if is_dict last_used
                  then filter not_none [dict_get last_used ''deviceId''] else [])
           in case py_sorted_set profile_numbers1 of
                Inl exc \<Rightarrow> (Inl exc, w5)
              | Inr profile_numbers \<Rightarrow>
                  (case py_sorted_set device_ids2 of
                     Inl exc \<Rightarrow> (Inl exc, w5)
                   | Inr device_id_list \<Rightarrow>
                       (let (gears, w6) = fetch_gear c profile_numbers w5;
                            (training_plans, w7) =
                              bootstrap_call c ''get_training_plans'' (JDict []) w6
                        in case py_sorted_set (ids_of truthy ''activityId'' activities) of
                             Inl exc \<Rightarrow> (Inl exc, w7)
                           | Inr activity_id_list \<Rightarrow>
                        (case py_sorted_set (ids_of not_none ''workoutId'' workouts) of
                             Inl exc \<Rightarrow> (Inl exc, w7)
                           | Inr workout_id_list \<Rightarrow>
                        (case py_sorted_set (ids_of not_none ''scheduledWorkoutId'' workouts) of
                             Inl exc \<Rightarrow> (Inl exc, w7)
                           | Inr scheduled_id_list \<Rightarrow>
                        (case py_sorted_set (ids_of truthy ''uuid'' gears) of
                             Inl exc \<Rightarrow> (Inl exc, w7)
                           | Inr gear_uuid_list \<Rightarrow>
                        (case py_sorted_set (plan_ids_of training_plans) of
                             Inl exc \<Rightarrow> (Inl exc, w7)
                           | Inr plan_id_list \<Rightarrow>
                               (Inr \<lparr>ctx_year = year,
                                     start_date = str_int year @ ''-01-01'',
                                     end_date = str_int year @ ''-12-31'',
                                     dates = year_dates,
                                     activity_ids = activity_id_list,
                                     workout_ids = workout_id_list,
                                     scheduled_workout_ids = scheduled_id_list,
                                     device_ids = device_id_list,
                                     user_profile_numbers = profile_numbers,
                                     gear_uuids = gear_uuid_list,
                                     plan_ids = plan_id_list,
                                     cached_method_data =
                                       [(''get_activities'', JList activities),
                                        (''get_workouts'', JList workouts),
                                        (''get_devices'', devices),
                                        (''get_user_profile'', profile),
                                        (''get_device_last_used'', last_used),
                                        (''get_gear'', JList gears),
                                        (''get_training_plans'', training_plans)]\<rparr>, w7)))))))))"

section \<open>One year's run\<close>

text \<open>The envelope written when a method's harvest raises.\<close>

definition synthetic_envelope :: "method_spec \<Rightarrow> int \<Rightarrow> call_type \<Rightarrow> exn \<Rightarrow> envelope" where
  "synthetic_envelope spec year ct exc =
     \<lparr>env_method = spec_method spec, env_section = spec_section spec, env_year = year,
      env_call_type = ct, status = Failed, request_args = [], data = [],
      errors = [(None, str_exc exc)],
      stats = \<lparr>attempted_calls = 0, success_calls = 0, failed_calls = 1, duration_seconds = 0\<rparr>\<rparr>"

definition manifest_item_of :: "method_spec \<Rightarrow> path \<Rightarrow> envelope \<Rightarrow> manifest_item" where
  "manifest_item_of spec p e =
     \<lparr>item_method = spec_method spec, item_section = spec_section spec,
      item_section_slug = section_slug spec, item_call_type = env_call_type e,
      item_status = status e, output_file = p, item_stats = stats e,
      error_count = length (errors e)\<rparr>"

text \<open>
  The envelope \<^verbatim>\<open>run_method\<close> ends with and the world it leaves. The first component of the
  result is the envelope, from which the manifest entry is made.
\<close>

definition harvest_method ::
  "client \<Rightarrow> seed_context \<Rightarrow> int \<Rightarrow> bool \<Rightarrow> bool \<Rightarrow> method_spec \<Rightarrow> envelope option \<Rightarrow> hworld \<Rightarrow>
   (envelope \<times> hworld) option"
where
  "harvest_method c ctx year overwrite include_downloads spec existing_envelope w =
     (let p = (section_slug spec, spec_method spec);
          ct = classify_call_type (spec_method spec) (signature spec)
      in case execute_method_for_year c spec ctx include_downloads (Some p) existing_envelope w of
           None \<Rightarrow> None
         | Some (Inr e, w1) \<Rightarrow> Some (e, write_json (Some p) e w1)
         | Some (Inl exc, w1) \<Rightarrow>
             Some (synthetic_envelope spec year ct exc,
                   write_json (Some p) (synthetic_envelope spec year ct exc) w1))"

definition run_method_envelope ::
  "client \<Rightarrow> seed_context \<Rightarrow> int \<Rightarrow> bool \<Rightarrow> bool \<Rightarrow> method_spec \<Rightarrow> hworld \<Rightarrow>
   (envelope \<times> hworld) option"
where
  "run_method_envelope c ctx year overwrite include_downloads spec w =
     (let p = (section_slug spec, spec_method spec)
      in if files w p \<noteq> None \<and> \<not> overwrite then
           (case read_json_if_exists p w of
              Some existing \<Rightarrow>
                if status existing = Success \<or> status existing = Skipped
                then Some (existing, w)
                else harvest_method c ctx year overwrite include_downloads spec (Some existing) w
            | None \<Rightarrow> harvest_method c ctx year overwrite include_downloads spec None w)
         else harvest_method c ctx year overwrite include_downloads spec None w)"

definition run_method ::
  "client \<Rightarrow> seed_context \<Rightarrow> int \<Rightarrow> bool \<Rightarrow> bool \<Rightarrow> method_spec \<Rightarrow> hworld \<Rightarrow>
   (manifest_item \<times> hworld) option"
where
  "run_method c ctx year overwrite include_downloads spec w =
     map_option (\<lambda>(e, w1). (manifest_item_of spec (section_slug spec, spec_method spec) e, w1))
       (run_method_envelope c ctx year overwrite include_downloads spec w)"

text \<open>The specs of the feed that are run: those of the selected sections that are not excluded.\<close>

definition scheduled_specs :: "method_spec list \<Rightarrow> string list option \<Rightarrow> method_spec list" where
  "scheduled_specs specs selected_sections =
     filter (\<lambda>spec.
        \<not> (case selected_sections of
             None \<Rightarrow> False
           | Some sel \<Rightarrow> sel \<noteq> [] \<and> section_slug spec \<notin> set sel) \<and>
        spec_method spec \<notin> set EXCLUDED_METHODS) specs"

text \<open>The loop \<^verbatim>\<open>for _, spec in indexed_specs: manifest_items.append(run_method(spec))\<close>.\<close>

fun run_methods ::
  "client \<Rightarrow> seed_context \<Rightarrow> int \<Rightarrow> bool \<Rightarrow> bool \<Rightarrow> method_spec list \<Rightarrow> hworld \<Rightarrow>
   (manifest_item list \<times> hworld) option"
where
  "run_methods c ctx year overwrite include_downloads [] w = Some ([], w)"
| "run_methods c ctx year overwrite include_downloads (spec # rest) w =
     (case run_method c ctx year overwrite include_downloads spec w of
        None \<Rightarrow> None
      | Some (item, w1) \<Rightarrow>
          (case run_methods c ctx year overwrite include_downloads rest w1 of
             None \<Rightarrow> None
           | Some (items, w2) \<Rightarrow> Some (item # items, w2)))"

definition build_manifest :: "int \<Rightarrow> manifest_item list \<Rightarrow> manifest" where
  "build_manifest year items =
     \<lparr>manifest_year = year, total_methods = length items,
      status_counts = (\<lambda>s. length (filter (\<lambda>item. item_status item = s) items)),
      methods = items\<rparr>"

text \<open>
  \<^verbatim>\<open>collect_year_data\<close> on one worker: the methods run one after the other on the client
  given. \<open>Inl\<close> is an exception that leaves the function, \<open>None\<close> a run that does not return.
\<close>

definition collect_year_data ::
  "client \<Rightarrow> method_spec list \<Rightarrow> int \<Rightarrow> bool \<Rightarrow> bool \<Rightarrow> string list option \<Rightarrow> hworld \<Rightarrow>
   ((exn + manifest) \<times> hworld) option"
where
  "collect_year_data c specs year overwrite include_downloads selected_sections w =
     (let w0 = (if overwrite then w\<lparr>files := Map.empty, manifest_file := None\<rparr> else w)
      in case build_seed_context c year w0 of
           (Inl exc, w1) \<Rightarrow> Some (Inl exc, w1)
         | (Inr ctx, w1) \<Rightarrow>
             (case run_methods c ctx year overwrite include_downloads
                     (scheduled_specs specs selected_sections) w1 of
                None \<Rightarrow> None
              | Some (items, w2) \<Rightarrow>
                  Some (Inr (build_manifest year items),
                        w2\<lparr>manifest_file := Some (build_manifest year items)\<rparr>)))"

section \<open>Notions used by the properties\<close>

text \<open>
  The paged loop for a positive page size, as a total function: the cursor grows by the page
  size in every iteration and stops below 20000. Lemma \<open>paged_loop_run\<close> shows that
  \<open>paged_loop\<close> returns exactly this for every positive page size.
\<close>

function paged_run ::
  "client \<Rightarrow> string \<Rightarrow> kwargs \<Rightarrow> int \<Rightarrow>
   (kwargs \<Rightarrow> json option \<Rightarrow> string option \<Rightarrow> nat \<Rightarrow> 's \<Rightarrow> hworld \<Rightarrow> 's \<times> hworld) \<Rightarrow>
   int \<Rightarrow> nat \<Rightarrow> 's \<Rightarrow> hworld \<Rightarrow> nat \<times> 's \<times> hworld"
where
  "paged_run c method base_kwargs limit on_chunk_done page_start elapsed st w =
     (if page_start < 20000 \<and> 0 < limit then
        (let kwargs = dict_set ''limit'' (JInt limit)
                        (dict_set ''start'' (JInt page_start) base_kwargs)
         in case safe_call c method kwargs 1 w of
              (Inr (result, took), w1) \<Rightarrow>
                (case on_chunk_done kwargs (Some (serialize_response_data result)) None took st w1 of
                   (st2, w2) \<Rightarrow>
                     if extract_items result = [] then (elapsed + took, st2, w2)
                     else if int (length (extract_items result)) < limit
                       then (elapsed + took, st2, w2)
                     else paged_run c method base_kwargs limit on_chunk_done
                            (page_start + limit) (elapsed + took) st2 w2)
            | (Inl exc, w1) \<Rightarrow>
                (case on_chunk_done kwargs None (Some (str_exc exc)) 0 st w1 of
                   (st2, w2) \<Rightarrow> (elapsed, st2, w2)))
      else (elapsed, st, w))"
  by pat_completeness auto
termination
  by (relation "measure (\<lambda>(c, method, base_kwargs, limit, on_chunk_done, page_start, elapsed, st, w).
                  nat (20000 - page_start))") auto

text \<open>The derivation table of the status, as the specification states it.\<close>

definition status_table :: "envelope \<Rightarrow> bool" where
  "status_table e =
     ((status e = Success) = (success_calls (stats e) > 0 \<and> failed_calls (stats e) = 0) \<and>
      (status e = Partial) = (success_calls (stats e) > 0 \<and> failed_calls (stats e) > 0) \<and>
      (status e = Failed) = (attempted_calls (stats e) > 0 \<and> success_calls (stats e) = 0) \<and>
      (status e = Skipped) = (attempted_calls (stats e) = 0))"

text \<open>The branch of \<^verbatim>\<open>execute_method_for_year\<close> a run takes.\<close>

datatype exec_path = SeedCachePath | PagedPath | SkipPath | SequentialPath | RaisePath

definition path_taken ::
  "method_spec \<Rightarrow> seed_context \<Rightarrow> bool \<Rightarrow> envelope option \<Rightarrow> exec_path"
where
  "path_taken spec ctx include_downloads existing_envelope =
     (let method = spec_method spec;
          ct = classify_call_type method (signature spec);
          envelope = start_envelope spec ctx ct existing_envelope
      in case seed_cache_hit ctx method envelope of
           Some cached_data \<Rightarrow> SeedCachePath
         | None \<Rightarrow>
             if ct = Paged then PagedPath
             else (case build_calls_for_method method (signature spec) ct ctx include_downloads of
                     Some (Inr ([], Some reason)) \<Rightarrow> SkipPath
                   | Some (Inr plan) \<Rightarrow> SequentialPath
                   | _ \<Rightarrow> RaisePath))"

text \<open>A run that starts from a fresh envelope: no prior one, or one of another method.\<close>

definition fresh_start :: "method_spec \<Rightarrow> envelope option \<Rightarrow> bool" where
  "fresh_start spec existing_envelope =
     (case existing_envelope of None \<Rightarrow> True | Some e \<Rightarrow> env_method e \<noteq> spec_method spec)"

text \<open>The requests that the error items of an envelope carry.\<close>

definition error_requests :: "envelope \<Rightarrow> kwargs list" where
  "error_requests e = List.map_filter fst (errors e)"

text \<open>
  Every attempted call is recorded once: the requests are, as a multiset, those of the data
  items together with those of the error items.
\<close>

definition recorded_once :: "envelope \<Rightarrow> bool" where
  "recorded_once e =
     (mset (request_args e) = mset (map fst (data e)) + mset (error_requests e))"

definition counters_ok :: "envelope \<Rightarrow> bool" where
  "counters_ok e =
     (attempted_calls (stats e) = length (request_args e) \<and>
      success_calls (stats e) = length (data e) \<and>
      failed_calls (stats e) = length (errors e))"

definition prior_ok :: "envelope option \<Rightarrow> bool" where
  "prior_ok existing_envelope =
     (case existing_envelope of None \<Rightarrow> True | Some e \<Rightarrow> recorded_once e)"

text \<open>
  Envelope \<open>e'\<close> continues envelope \<open>e\<close> with the attempted requests \<open>reqs\<close>: they are
  appended to the request list, and each of them is appended either to the data items or,
  with the request it belongs to, to the error items.
\<close>

definition grows :: "envelope \<Rightarrow> envelope \<Rightarrow> kwargs list \<Rightarrow> bool" where
  "grows e e' reqs =
     (request_args e' = request_args e @ reqs \<and>
      (\<exists>ds es. data e' = data e @ ds \<and> errors e' = errors e @ es \<and>
         mset reqs = mset (map fst ds) + mset (List.map_filter fst es) \<and>
         list_all (\<lambda>er. fst er \<noteq> None) es))"

text \<open>
  The id lists of a seed context give pairwise different request keys: what
  \<^verbatim>\<open>sorted(set(...))\<close> leaves in \<^verbatim>\<open>build_seed_context\<close>.
\<close>

definition seed_keys_distinct :: "seed_context \<Rightarrow> bool" where
  "seed_keys_distinct ctx =
     (\<forall>(param, seed_key) \<in> set ID_PARAM_TO_SEED_KEY.
        distinct (map (\<lambda>id_value. request_key [(param, id_value)]) (seed_list ctx seed_key)))"

definition keys_distinct :: "envelope \<Rightarrow> bool" where
  "keys_distinct e = distinct (get_completed_request_keys e)"

text \<open>
  One attempted request with its outcome: the error text when the call raised, the stored
  response when it returned.
\<close>

type_synonym attempt = "kwargs \<times> (string + json)"


text \<open>The data items and the error items that a list of attempts is recorded as.\<close>

definition data_of :: "attempt list \<Rightarrow> (kwargs \<times> json) list" where
  "data_of atts =
     List.map_filter (\<lambda>(req, res). case res of Inl t \<Rightarrow> None | Inr r \<Rightarrow> Some (req, r)) atts"

definition errors_of :: "attempt list \<Rightarrow> (kwargs option \<times> string) list" where
  "errors_of atts =
     List.map_filter (\<lambda>(req, res). case res of Inl t \<Rightarrow> Some (Some req, t) | Inr r \<Rightarrow> None) atts"

text \<open>
  Envelope \<open>e'\<close> is envelope \<open>e\<close> with the attempts \<open>atts\<close> recorded: every request appended
  to the request list, every returned call to the data items and every raised call to the
  error items, in the order of the attempts.
\<close>

definition records :: "envelope \<Rightarrow> envelope \<Rightarrow> attempt list \<Rightarrow> bool" where
  "records e e' atts =
     (request_args e' = request_args e @ map fst atts \<and>
      data e' = data e @ data_of atts \<and>
      errors e' = errors e @ errors_of atts)"



section \<open>Example inputs\<close>

definition world_init :: hworld where
  "world_init = \<lparr>calls = [], clock = 0, files = Map.empty, manifest_file = None\<rparr>"

text \<open>A seed context for 2025 with no ids and no cached payloads.\<close>

definition ctx_plain :: seed_context where
  "ctx_plain =
     \<lparr>ctx_year = 2025, start_date = ''2025-01-01'', end_date = ''2025-12-31'',
      dates = [''2025-01-01'', ''2025-01-02''],
      activity_ids = [], workout_ids = [], scheduled_workout_ids = [], device_ids = [],
      user_profile_numbers = [], gear_uuids = [], plan_ids = [], cached_method_data = []\<rparr>"

text \<open>The same context after a bootstrap in which the device list was fetched.\<close>

definition ctx_cached :: seed_context where
  "ctx_cached =
     ctx_plain\<lparr>device_ids := [JInt 7],
                cached_method_data := [(''get_devices'', JList [JDict [(''deviceId'', JInt 7)]])]\<rparr>"

definition spec_devices :: method_spec where
  "spec_devices =
     \<lparr>spec_section = ''Device & Technical'', section_slug = ''device_technical'',
      spec_method = ''get_devices'', signature = ''get_devices()''\<rparr>"

definition spec_download :: method_spec where
  "spec_download =
     \<lparr>spec_section = ''Activities & Workouts'', section_slug = ''activities_workouts'',
      spec_method = ''download_activity'',
      signature = ''download_activity(activity_id, dl_fmt=ActivityDownloadFormat.TCX)''\<rparr>"

text \<open>A service that is down: every call raises a server error.\<close>

definition down_client :: client where
  "down_client = \<lparr>has_method = (\<lambda>m. True),
     respond = (\<lambda>log cl. (Raises ''503 Server Error'', 1))\<rparr>"

text \<open>A service that answers every call with an empty list.\<close>

definition idle_client :: client where
  "idle_client = \<lparr>has_method = (\<lambda>m. True), respond = (\<lambda>log cl. (Returns (JList []), 1))\<rparr>"

text \<open>The envelope of \<^verbatim>\<open>get_devices\<close> after one failed call.\<close>

definition failed_devices :: envelope where
  "failed_devices =
     \<lparr>env_method = ''get_devices'', env_section = ''Device & Technical'', env_year = 2025,
      env_call_type = Noarg, status = Failed, request_args = [[]], data = [],
      errors = [(Some [], ''503 Server Error'')],
      stats = \<lparr>attempted_calls = 1, success_calls = 0, failed_calls = 1, duration_seconds = 2\<rparr>\<rparr>"

text \<open>The envelope of \<^verbatim>\<open>download_activity\<close> when downloads are disabled.\<close>

definition skipped_download :: envelope where
  "skipped_download =
     \<lparr>env_method = ''download_activity'', env_section = ''Activities & Workouts'',
      env_year = 2025, env_call_type = Download, status = Skipped, request_args = [],
      data = [], errors = [(None, ''download_disabled'')],
      stats = \<lparr>attempted_calls = 0, success_calls = 0, failed_calls = 1, duration_seconds = 0\<rparr>\<rparr>"

definition spec_activities :: method_spec where
  "spec_activities =
     \<lparr>spec_section = ''Activities & Workouts'', section_slug = ''activities_workouts'',
      spec_method = ''get_activities'',
      signature = ''get_activities(start=0, limit=20, activitytype=None)''\<rparr>"

text \<open>An interrupted paged harvest: the page at cursor 0 is done, the page at 100 failed.\<close>

definition one_page_done :: envelope where
  "one_page_done =
     \<lparr>env_method = ''get_activities'', env_section = ''Activities & Workouts'', env_year = 2025,
      env_call_type = Paged, status = Partial,
      request_args = [[(''limit'', JInt 100), (''start'', JInt 0)],
                      [(''limit'', JInt 100), (''start'', JInt 100)]],
      data = [([(''limit'', JInt 100), (''start'', JInt 0)], JList [])],
      errors = [(Some [(''limit'', JInt 100), (''start'', JInt 100)], ''503 Server Error'')],
      stats = \<lparr>attempted_calls = 2, success_calls = 1, failed_calls = 1, duration_seconds = 3\<rparr>\<rparr>"

text \<open>The envelope of \<^verbatim>\<open>download_activity\<close> after one failed download.\<close>

definition failed_download :: envelope where
  "failed_download =
     \<lparr>env_method = ''download_activity'', env_section = ''Activities & Workouts'',
      env_year = 2025, env_call_type = Download, status = Failed,
      request_args = [[(''activity_id'', JInt 5)]], data = [],
      errors = [(Some [(''activity_id'', JInt 5)], ''503 Server Error'')],
      stats = \<lparr>attempted_calls = 1, success_calls = 0, failed_calls = 1, duration_seconds = 2\<rparr>\<rparr>"

section \<open>Example clients\<close>

definition flaky_client :: client where
  "flaky_client = \<lparr>has_method = (\<lambda>m. True),
     respond = (\<lambda>log cl. if log = [] then (Raises ''503 Server Error'', 5) else (Returns (JInt 7), 3))\<rparr>"

definition rejecting_client :: client where
  "rejecting_client = \<lparr>has_method = (\<lambda>m. True),
     respond = (\<lambda>log cl. (Raises ''Bad Request (400)'', 1))\<rparr>"

definition world0 :: world where
  "world0 = \<lparr>calls = [], clock = 0\<rparr>"

section \<open>Example of an id-based method\<close>

definition spec_activity :: method_spec where
  "spec_activity =
     \<lparr>spec_section = ''Activities & Workouts'', section_slug = ''activities_workouts'',
      spec_method = ''get_activity'', signature = ''get_activity(activity_id)''\<rparr>"

text \<open>A seed context with two activities.\<close>

definition ctx_ids :: seed_context where
  "ctx_ids = ctx_plain\<lparr>activity_ids := [JInt 5, JInt 6]\<rparr>"

text \<open>A service that answers for activity 5 and fails for everything else.\<close>

definition picky_client :: client where
  "picky_client = \<lparr>has_method = (\<lambda>m. True),
     respond = (\<lambda>log cl. if snd cl = [(''activity_id'', JInt 5)] then (Returns (JDict []), 1)
                          else (Raises ''503 Server Error'', 1))\<rparr>"

text \<open>The envelope of \<^verbatim>\<open>get_activity\<close> after the first run against that service.\<close>

definition first_activity :: envelope where
  "first_activity =
     \<lparr>env_method = ''get_activity'', env_section = ''Activities & Workouts'', env_year = 2025,
      env_call_type = IdBased, status = Partial,
      request_args = [[(''activity_id'', JInt 5)], [(''activity_id'', JInt 6)]],
      data = [([(''activity_id'', JInt 5)], JDict [])],
      errors = [(Some [(''activity_id'', JInt 6)], ''503 Server Error'')],
      stats = \<lparr>attempted_calls = 2, success_calls = 1, failed_calls = 1, duration_seconds = 3\<rparr>\<rparr>"

text \<open>The call log after the first run.\<close>

definition first_activity_world :: hworld where
  "first_activity_world =
     world_init\<lparr>calls := [(''get_activity'', [(''activity_id'', JInt 5)]),
                          (''get_activity'', [(''activity_id'', JInt 6)]),
                          (''get_activity'', [(''activity_id'', JInt 6)])], clock := 3\<rparr>"

section \<open>Properties of the retry wrapper\<close>

lemma calls_invoke: "calls (snd (invoke c m kw w)) = calls w @ [(m, kw)]"
  by (simp add: invoke_def split: prod.splits)

lemma calls_after_attempts:
  "calls (after_attempts c m kw k w) = calls w @ replicate k (m, kw)"
  by (induction k arbitrary: w) (simp_all add: calls_invoke replicate_app_Cons_same)

lemma attempts_made_after [simp]:
  "attempts_made w (after_attempts c m kw k w) = k"
  by (simp add: attempts_made_def calls_after_attempts)

lemma attempt_outcome_0: "attempt_outcome c m kw w 0 = fst (invoke c m kw w)"
  by (simp add: attempt_outcome_def)

lemma attempt_outcome_Suc:
  "attempt_outcome c m kw w (Suc j) = attempt_outcome c m kw (snd (invoke c m kw w)) j"
  by (simp add: attempt_outcome_def)

lemma after_attempts_Suc_right:
  "after_attempts c m kw (Suc k) w = snd (invoke c m kw (after_attempts c m kw k w))"
  by (induction k arbitrary: w) simp_all

lemma loop_returns:
  "k < n \<Longrightarrow> \<forall>j<k. retryable (attempt_outcome c m kw w j) \<Longrightarrow>
   attempt_outcome c m kw w k = Returns r \<Longrightarrow>
   safe_call_loop c m kw n le st w =
     (Inr (r, clock (after_attempts c m kw (Suc k) w) - st), after_attempts c m kw (Suc k) w)"
proof (induction n arbitrary: k w le)
  case 0
  then show ?case by simp
next
  case (Suc n)
  show ?case
  proof (cases k)
    case 0
    with Suc.prems show ?thesis
      by (cases "invoke c m kw w") (simp add: attempt_outcome_0)
  next
    case (Suc k')
    obtain out w1 where inv: "invoke c m kw w = (out, w1)" by (cases "invoke c m kw w")
    from Suc.prems(2) Suc have "retryable (attempt_outcome c m kw w 0)" by simp
    with inv obtain t where out: "out = Raises t" "\<not> is_client_error t"
      by (cases out) (simp_all add: attempt_outcome_0 retryable_def)
    have a: "k' < n" using Suc.prems(1) Suc by simp
    have b: "\<forall>j<k'. retryable (attempt_outcome c m kw w1 j)"
      using Suc.prems(2) Suc inv by (auto simp: attempt_outcome_Suc dest: spec [where x = "Suc _"])
    have c: "attempt_outcome c m kw w1 k' = Returns r"
      using Suc.prems(3) Suc inv by (simp add: attempt_outcome_Suc)
    show ?thesis
      using Suc.IH [OF a b c] inv out Suc by simp
  qed
qed

lemma loop_client_error:
  "k < n \<Longrightarrow> \<forall>j<k. retryable (attempt_outcome c m kw w j) \<Longrightarrow>
   attempt_outcome c m kw w k = Raises t \<Longrightarrow> is_client_error t \<Longrightarrow>
   safe_call_loop c m kw n le st w = (Inl (RemoteError t), after_attempts c m kw (Suc k) w)"
proof (induction n arbitrary: k w le)
  case 0
  then show ?case by simp
next
  case (Suc n)
  show ?case
  proof (cases k)
    case 0
    with Suc.prems show ?thesis
      by (cases "invoke c m kw w") (simp add: attempt_outcome_0)
  next
    case (Suc k')
    obtain out w1 where inv: "invoke c m kw w = (out, w1)" by (cases "invoke c m kw w")
    from Suc.prems(2) Suc have "retryable (attempt_outcome c m kw w 0)" by simp
    with inv obtain t' where out: "out = Raises t'" "\<not> is_client_error t'"
      by (cases out) (simp_all add: attempt_outcome_0 retryable_def)
    have a: "k' < n" using Suc.prems(1) Suc by simp
    have b: "\<forall>j<k'. retryable (attempt_outcome c m kw w1 j)"
      using Suc.prems(2) Suc inv by (auto simp: attempt_outcome_Suc dest: spec [where x = "Suc _"])
    have c: "attempt_outcome c m kw w1 k' = Raises t"
      using Suc.prems(3) Suc inv by (simp add: attempt_outcome_Suc)
    show ?thesis
      using Suc.IH [OF a b c Suc.prems(4)] inv out Suc by simp
  qed
qed

lemma loop_exhausted:
  "\<forall>j<Suc n. retryable (attempt_outcome c m kw w j) \<Longrightarrow>
   attempt_outcome c m kw w n = Raises t \<Longrightarrow>
   safe_call_loop c m kw (Suc n) le st w = (Inl (RemoteError t), after_attempts c m kw (Suc n) w)"
proof (induction n arbitrary: w le)
  case 0
  then show ?case
    by (cases "invoke c m kw w") (auto simp: attempt_outcome_0 retryable_def)
next
  case (Suc n)
  obtain out w1 where inv: "invoke c m kw w = (out, w1)" by (cases "invoke c m kw w")
  from Suc.prems(1) have "retryable (attempt_outcome c m kw w 0)" by blast
  with inv obtain t' where out: "out = Raises t'" "\<not> is_client_error t'"
    by (cases out) (simp_all add: attempt_outcome_0 retryable_def)
  have b: "\<forall>j<Suc n. retryable (attempt_outcome c m kw w1 j)"
    using Suc.prems(1) inv by (auto simp: attempt_outcome_Suc dest: spec [where x = "Suc _"])
  have c: "attempt_outcome c m kw w1 n = Raises t"
    using Suc.prems(2) inv by (simp add: attempt_outcome_Suc)
  show ?case
    using Suc.IH [OF b c] inv out by simp
qed

lemma loop_attempts_le:
  "safe_call_loop c m kw n le st w = (res, w') \<Longrightarrow>
   length (calls w') \<le> length (calls w) + n \<and> length (calls w) \<le> length (calls w')"
proof (induction n arbitrary: w le)
  case 0
  then show ?case by (auto split: option.splits)
next
  case (Suc n)
  obtain out w1 where inv: "invoke c m kw w = (out, w1)" by (cases "invoke c m kw w")
  then have l: "length (calls w1) = Suc (length (calls w))"
    using calls_invoke [of c m kw w] by simp
  show ?case
  proof (cases out)
    case (Returns r)
    with Suc.prems inv l show ?thesis by auto
  next
    case (Raises t)
    show ?thesis
    proof (cases "is_client_error t")
      case True
      with Suc.prems inv l Raises show ?thesis by auto
    next
      case False
      with Suc.prems inv Raises
      have "safe_call_loop c m kw n (Some (RemoteError t)) st w1 = (res, w')" by simp
      from Suc.IH [OF this] l show ?thesis by simp
    qed
  qed
qed


text \<open>
  Claim C6. With the method present on the client and \<open>retries \<ge> 0\<close>, \<^verbatim>\<open>safe_call\<close> invokes
  the method at most \<open>retries + 1\<close> times. If attempt \<open>k\<close> is the first one that is not a
  retryable failure and it raises an error carrying the deterministic client-error signature
  (its text contains \<^verbatim>\<open>400 Client Error\<close> or \<^verbatim>\<open>(400)\<close>), that error is raised at once and no
  further attempt is made; in particular such an error on the first attempt is never retried.
  If every one of the \<open>retries + 1\<close> attempts fails with another error, all of them are made
  and the error of the last attempt is raised. If attempt \<open>k\<close> returns, its result is returned
  together with the clock time elapsed since the wrapper started.
\<close>

theorem safe_call_bounded_retry:
  assumes hm: "has_method c m" and r0: "0 \<le> retries"
    and sc: "safe_call c m kw retries w = (res, w')"
  shows "int (attempts_made w w') \<le> retries + 1 \<and>
    (\<forall>k t. int k \<le> retries \<and> (\<forall>j<k. retryable (attempt_outcome c m kw w j)) \<and>
       attempt_outcome c m kw w k = Raises t \<and> is_client_error t
       \<longrightarrow> res = Inl (RemoteError t) \<and> attempts_made w w' = Suc k) \<and>
    (\<forall>t. (\<forall>j. int j \<le> retries \<longrightarrow> retryable (attempt_outcome c m kw w j)) \<and>
       attempt_outcome c m kw w (nat retries) = Raises t
       \<longrightarrow> res = Inl (RemoteError t) \<and> int (attempts_made w w') = retries + 1) \<and>
    (\<forall>k r. int k \<le> retries \<and> (\<forall>j<k. retryable (attempt_outcome c m kw w j)) \<and>
       attempt_outcome c m kw w k = Returns r
       \<longrightarrow> res = Inr (r, clock w' - clock w) \<and> attempts_made w w' = Suc k)"
proof -
  define n where "n = nat retries"
  have n: "nat (retries + 1) = Suc n" "retries = int n" using r0 by (simp_all add: n_def)
  have loop: "safe_call_loop c m kw (Suc n) None (clock w) w = (res, w')"
    using sc hm n by (simp add: safe_call_def)
  have 1: "int (attempts_made w w') \<le> retries + 1"
    using loop_attempts_le [OF loop] n by (simp add: attempts_made_def)
  have 2: "res = Inl (RemoteError t) \<and> attempts_made w w' = Suc k"
    if "int k \<le> retries" "\<forall>j<k. retryable (attempt_outcome c m kw w j)"
       "attempt_outcome c m kw w k = Raises t" "is_client_error t" for k t
  proof -
    have "k < Suc n" using that(1) n by simp
    from loop_client_error [OF this that(2) that(3) that(4), of None "clock w"] loop
    have "res = Inl (RemoteError t) \<and> w' = after_attempts c m kw (Suc k) w"
      by (simp del: safe_call_loop.simps after_attempts.simps)
    then show ?thesis by (simp del: after_attempts.simps)
  qed
  have 3: "res = Inl (RemoteError t) \<and> int (attempts_made w w') = retries + 1"
    if "\<forall>j. int j \<le> retries \<longrightarrow> retryable (attempt_outcome c m kw w j)"
       "attempt_outcome c m kw w (nat retries) = Raises t" for t
  proof -
    have a: "\<forall>j<Suc n. retryable (attempt_outcome c m kw w j)" using that(1) n by simp
    have b: "attempt_outcome c m kw w n = Raises t" using that(2) by (simp add: n_def)
    from loop_exhausted [OF a b, of None "clock w"] loop
    have "res = Inl (RemoteError t) \<and> w' = after_attempts c m kw (Suc n) w"
      by (simp del: safe_call_loop.simps after_attempts.simps)
    then show ?thesis using n by (simp del: after_attempts.simps)
  qed
  have 4: "res = Inr (r, clock w' - clock w) \<and> attempts_made w w' = Suc k"
    if "int k \<le> retries" "\<forall>j<k. retryable (attempt_outcome c m kw w j)"
       "attempt_outcome c m kw w k = Returns r" for k r
  proof -
    have "k < Suc n" using that(1) n by simp
    from loop_returns [OF this that(2) that(3), of None "clock w"] loop
    have "res = Inr (r, clock (after_attempts c m kw (Suc k) w) - clock w) \<and>
          w' = after_attempts c m kw (Suc k) w"
      by (simp del: safe_call_loop.simps after_attempts.simps)
    then show ?thesis by (simp del: after_attempts.simps)
  qed
  show ?thesis using 1 2 3 4 by blast
qed

lemma flaky_run:
  "safe_call flaky_client ''get_full_name'' [] 1 world0 =
     (Inr (JInt 7, 8), \<lparr>calls = [(''get_full_name'', []), (''get_full_name'', [])], clock = 8\<rparr>)"
  by (simp add: safe_call_def flaky_client_def world0_def invoke_def is_client_error_def
      eval_nat_numeral)

theorem safe_call_bounded_retry_witness:
  "has_method flaky_client ''get_full_name'' \<and> (0::int) \<le> 1 \<and>
   fst (safe_call flaky_client ''get_full_name'' [] 1 world0) = Inr (JInt 7, 8) \<and>
   attempts_made world0 (snd (safe_call flaky_client ''get_full_name'' [] 1 world0)) = 2"
proof -
  have hm: "has_method flaky_client ''get_full_name''" by (simp add: flaky_client_def)
  have r0: "(0::int) \<le> 1" by simp
  have a0: "retryable (attempt_outcome flaky_client ''get_full_name'' [] world0 0)"
    by (simp add: attempt_outcome_def retryable_def flaky_client_def world0_def invoke_def
        is_client_error_def)
  have a1: "attempt_outcome flaky_client ''get_full_name'' [] world0 1 = Returns (JInt 7)"
    by (simp add: attempt_outcome_def flaky_client_def world0_def invoke_def)
  from safe_call_bounded_retry [OF hm r0 flaky_run] a0 a1
  have "Inr (JInt 7, 8) = (Inr (JInt 7, 8 - clock world0) :: exn + json \<times> nat) \<and>
        attempts_made world0 \<lparr>calls = [(''get_full_name'', []), (''get_full_name'', [])], clock = 8\<rparr> = Suc 1"
    by (auto dest!: conjunct2 spec [where x = "1::nat"])
  with hm show ?thesis by (simp add: flaky_run)
qed

text \<open>
  The signature has two textual forms: an error whose text contains \<^verbatim>\<open>(400)\<close> but not
  \<^verbatim>\<open>400 Client Error\<close> is surfaced after a single attempt as well.
\<close>

lemma safe_call_other_signature_not_retried:
  "\<not> contains ''400 Client Error'' ''Bad Request (400)'' \<and>
   fst (safe_call rejecting_client ''get_stats'' [] 2 world0) = Inl (RemoteError ''Bad Request (400)'') \<and>
   attempts_made world0 (snd (safe_call rejecting_client ''get_stats'' [] 2 world0)) = 1"
  by (simp add: safe_call_def rejecting_client_def world0_def invoke_def is_client_error_def
      attempts_made_def eval_nat_numeral)

section \<open>Call logs, dictionaries and files\<close>

lemma safe_call_loop_calls:
  "safe_call_loop c m kw n le st w = (res, w') \<Longrightarrow>
   \<exists>k\<le>n. calls w' = calls w @ replicate k (m, kw)"
proof (induction n arbitrary: w le)
  case 0
  then show ?case by (auto split: option.splits)
next
  case (Suc n)
  obtain out w1 where inv: "invoke c m kw w = (out, w1)" by (cases "invoke c m kw w")
  then have l: "calls w1 = calls w @ [(m, kw)]"
    using calls_invoke [of c m kw w] by simp
  show ?case
  proof (cases out)
    case (Returns r)
    with Suc.prems inv l have "calls w' = calls w @ replicate 1 (m, kw)" by auto
    then show ?thesis by (intro exI [of _ 1]) simp
  next
    case (Raises t)
    show ?thesis
    proof (cases "is_client_error t")
      case True
      with Suc.prems inv l Raises have "calls w' = calls w @ replicate 1 (m, kw)" by auto
      then show ?thesis by (intro exI [of _ 1]) simp
    next
      case False
      with Suc.prems inv Raises
      have "safe_call_loop c m kw n (Some (RemoteError t)) st w1 = (res, w')" by simp
      from Suc.IH [OF this] obtain k where "k \<le> n" "calls w' = calls w1 @ replicate k (m, kw)"
        by blast
      then have "Suc k \<le> Suc n \<and> calls w' = calls w @ replicate (Suc k) (m, kw)"
        using l by simp
      then show ?thesis by blast
    qed
  qed
qed

lemma safe_call_calls:
  "safe_call c m kw r w = (res, w') \<Longrightarrow> \<exists>k. calls w' = calls w @ replicate k (m, kw)"
  by (auto simp: safe_call_def split: if_splits dest: safe_call_loop_calls intro: exI [of _ 0])

lemma invoke_more: "world.more (snd (invoke c m kw w)) = world.more w"
  by (simp add: invoke_def split: prod.splits)

lemma safe_call_loop_more:
  "safe_call_loop c m kw n le st w = (res, w') \<Longrightarrow> world.more w' = world.more w"
proof (induction n arbitrary: w le)
  case 0
  then show ?case by (auto split: option.splits)
next
  case (Suc n)
  obtain out w1 where inv: "invoke c m kw w = (out, w1)" by (cases "invoke c m kw w")
  then have l: "world.more w1 = world.more w"
    using invoke_more [of c m kw w] by simp
  show ?case
  proof (cases out)
    case (Returns r)
    with Suc.prems inv l show ?thesis by auto
  next
    case (Raises t)
    show ?thesis
    proof (cases "is_client_error t")
      case True
      with Suc.prems inv l Raises show ?thesis by auto
    next
      case False
      with Suc.prems inv Raises
      have "safe_call_loop c m kw n (Some (RemoteError t)) st w1 = (res, w')" by simp
      from Suc.IH [OF this] l show ?thesis by simp
    qed
  qed
qed

lemma safe_call_more:
  "safe_call c m kw r w = (res, w') \<Longrightarrow> world.more w' = world.more w"
  by (auto simp: safe_call_def split: if_splits dest: safe_call_loop_more)

lemma safe_call_files:
  fixes w :: hworld
  shows "safe_call c m kw r w = (res, w') \<Longrightarrow> files w' = files w \<and> manifest_file w' = manifest_file w"
  by (cases w; cases w'; drule safe_call_more; simp)

lemma map_of_dict_replace:
  "map_of (map (\<lambda>(k', v'). if k' = k then (k', v) else (k', v')) d) x =
     (if x = k \<and> k \<in> fst ` set d then Some v else map_of d x)"
proof (induction d)
  case Nil
  show ?case by simp
next
  case (Cons a d)
  obtain k' v' where a: "a = (k', v')" by (cases a)
  show ?case using Cons by (cases "k' = k") (force simp: a)+
qed

lemma map_of_dict_set: "map_of (dict_set k v d) = (map_of d)(k \<mapsto> v)"
proof (cases "k \<in> fst ` set d")
  case False
  then have "map_of d k = None" by (simp add: map_of_eq_None_iff)
  with False show ?thesis
    by (auto simp: dict_set_def map_add_def fun_eq_iff split: option.splits)
next
  case True
  then show ?thesis
    by (simp add: dict_set_def fun_eq_iff map_of_dict_replace)
qed

lemma write_json_calls [simp]: "calls (write_json out e w) = calls w"
  by (simp add: write_json_def split: option.splits)

lemma write_json_clock [simp]: "clock (write_json out e w) = clock w"
  by (simp add: write_json_def split: option.splits)

section \<open>The steps of a harvest\<close>

lemma paged_loop_run:
  "0 < limit \<Longrightarrow>
   paged_loop c m base limit f ps el st w = Some (paged_run c m base limit f ps el st w)"
proof (induction c m base limit f ps el st w rule: paged_run.induct)
  case (1 c m base limit f ps el st w)
  show ?case
  proof (cases "ps < 20000")
    case False
    then show ?thesis by (subst paged_loop.simps, subst paged_run.simps) simp
  next
    case True
    let ?kw = "dict_set ''limit'' (JInt limit) (dict_set ''start'' (JInt ps) base)"
    obtain res w1 where sc: "safe_call c m ?kw 1 w = (res, w1)"
      by (cases "safe_call c m ?kw 1 w")
    show ?thesis
    proof (cases res)
      case (Inl exc)
      with True sc "1.prems" show ?thesis
        by (subst paged_loop.simps, subst paged_run.simps) (simp split: prod.splits)
    next
      case (Inr rt)
      obtain result took where rt: "rt = (result, took)" by (cases rt)
      obtain st2 w2 where cb: "f ?kw (Some (serialize_response_data result)) None took st w1 = (st2, w2)"
        by (cases "f ?kw (Some (serialize_response_data result)) None took st w1")
      show ?thesis
      proof (cases "extract_items result = [] \<or> int (length (extract_items result)) < limit")
        case True
        with \<open>ps < 20000\<close> sc Inr rt cb "1.prems" show ?thesis
          by (subst paged_loop.simps, subst paged_run.simps) auto
      next
        case False
        have ih: "paged_loop c m base limit f (ps + limit) (el + took) st2 w2 =
                  Some (paged_run c m base limit f (ps + limit) (el + took) st2 w2)"
          using "1.IH" [OF _ refl sc [symmetric] _ rt [symmetric] ] \<open>ps < 20000\<close> "1.prems" Inr rt cb False
          by simp
        with \<open>ps < 20000\<close> sc Inr rt cb "1.prems" False show ?thesis
          by (subst paged_loop.simps, subst paged_run.simps) auto
      qed
    qed
  qed
qed

lemma growsI:
  "request_args e' = request_args e @ reqs \<Longrightarrow> data e' = data e @ ds \<Longrightarrow>
   errors e' = errors e @ es \<Longrightarrow>
   mset reqs = mset (map fst ds) + mset (List.map_filter fst es) \<Longrightarrow>
   list_all (\<lambda>er. fst er \<noteq> None) es \<Longrightarrow> grows e e' reqs"
  by (auto simp: grows_def)

lemma grows_refl: "grows e e []"
  by (simp add: grows_def List.map_filter_simps)

lemma map_filter_append: "List.map_filter f (xs @ ys) = List.map_filter f xs @ List.map_filter f ys"
  by (simp add: List.map_filter_def)

lemma grows_trans:
  assumes "grows e e1 r1" and "grows e1 e2 r2"
  shows "grows e e2 (r1 @ r2)"
proof -
  from assms(1) obtain ds1 es1 where
    1: "request_args e1 = request_args e @ r1" "data e1 = data e @ ds1" "errors e1 = errors e @ es1"
       "mset r1 = mset (map fst ds1) + mset (List.map_filter fst es1)"
       "list_all (\<lambda>er. fst er \<noteq> None) es1"
    by (auto simp: grows_def)
  from assms(2) obtain ds2 es2 where
    2: "request_args e2 = request_args e1 @ r2" "data e2 = data e1 @ ds2" "errors e2 = errors e1 @ es2"
       "mset r2 = mset (map fst ds2) + mset (List.map_filter fst es2)"
       "list_all (\<lambda>er. fst er \<noteq> None) es2"
    by (auto simp: grows_def)
  have "data e2 = data e @ (ds1 @ ds2)" "errors e2 = errors e @ (es1 @ es2)"
       "mset (r1 @ r2) = mset (map fst (ds1 @ ds2)) + mset (List.map_filter fst (es1 @ es2))"
       "list_all (\<lambda>er. fst er \<noteq> None) (es1 @ es2)"
    using 1 2 by (simp_all add: map_filter_append)
  then show ?thesis
    unfolding grows_def using 1(1) 2(1) by (metis append.assoc)
qed

lemma counters_ok_recount [simp]: "counters_ok (recount e)"
  by (simp add: counters_ok_def recount_def)

lemma recount_lists [simp]:
  "request_args (recount e) = request_args e" "data (recount e) = data e"
  "errors (recount e) = errors e" "status (recount e) = status e"
  "env_method (recount e) = env_method e"
  by (simp_all add: recount_def)

lemma execute_call_grows:
  assumes "execute_call c m out kw e w = (e', w')"
  shows "grows e e' [kw] \<and> counters_ok e'"
proof -
  obtain res w1 where sc: "safe_call c m kw 1 w = (res, w1)" by (cases "safe_call c m kw 1 w")
  show ?thesis
  proof (cases res)
    case (Inl exc)
    with assms sc have e': "e' = recount (e\<lparr>request_args := request_args e @ [kw],
        errors := errors e @ [(Some kw, str_exc exc)],
        stats := (stats e)\<lparr>duration_seconds := duration_seconds (stats e) + (clock w1 - clock w)\<rparr>\<rparr>)"
      by (simp add: execute_call_def Let_def)
    have "grows e e' [kw]"
      by (rule growsI [where ds = "[]" and es = "[(Some kw, str_exc exc)]"])
         (simp_all add: e' List.map_filter_simps)
    then show ?thesis by (simp add: e')
  next
    case (Inr rt)
    obtain result elapsed where rt: "rt = (result, elapsed)" by (cases rt)
    with assms sc Inr have e': "e' = recount (e\<lparr>request_args := request_args e @ [kw],
        data := data e @ [(kw, serialize_response_data result)],
        stats := (stats e)\<lparr>duration_seconds := duration_seconds (stats e) + elapsed\<rparr>\<rparr>)"
      by (simp add: execute_call_def Let_def)
    have "grows e e' [kw]"
      by (rule growsI [where ds = "[(kw, serialize_response_data result)]" and es = "[]"])
         (simp_all add: e' List.map_filter_simps)
    then show ?thesis by (simp add: e')
  qed
qed

lemma execute_calls_grows:
  "execute_calls c m out kws e w = (e', w') \<Longrightarrow>
   grows e e' kws \<and> (counters_ok e \<longrightarrow> counters_ok e')"
proof (induction kws arbitrary: e w)
  case Nil
  then show ?case by (simp add: grows_refl)
next
  case (Cons kw kws)
  obtain e1 w1 where st: "execute_call c m out kw e w = (e1, w1)"
    by (cases "execute_call c m out kw e w")
  with Cons.prems have rest: "execute_calls c m out kws e1 w1 = (e', w')" by simp
  from execute_call_grows [OF st] Cons.IH [OF rest] grows_trans [of e e1 "[kw]" e' kws]
  show ?case by simp
qed

lemma chunk_done_grows:
  assumes "on_paged_chunk_done out req resp err took e w = (e', w')"
  shows "grows e e' [req] \<and> counters_ok e'"
proof (cases err)
  case None
  with assms have e': "e' = (recount (e\<lparr>request_args := request_args e @ [req],
        data := data e @ [(req, case resp of None \<Rightarrow> JNull | Some r \<Rightarrow> r)]\<rparr>))
        \<lparr>stats := (stats (recount (e\<lparr>request_args := request_args e @ [req],
        data := data e @ [(req, case resp of None \<Rightarrow> JNull | Some r \<Rightarrow> r)]\<rparr>)))
           \<lparr>duration_seconds := duration_seconds (stats (recount (e\<lparr>request_args := request_args e @ [req],
        data := data e @ [(req, case resp of None \<Rightarrow> JNull | Some r \<Rightarrow> r)]\<rparr>))) + took\<rparr>\<rparr>"
    by (simp add: on_paged_chunk_done_def Let_def)
  have "grows e e' [req]"
    by (rule growsI [where ds = "[(req, case resp of None \<Rightarrow> JNull | Some r \<Rightarrow> r)]" and es = "[]"])
       (simp_all add: e' List.map_filter_simps)
  moreover have "counters_ok e'" by (simp add: e' counters_ok_def recount_def)
  ultimately show ?thesis by simp
next
  case (Some t)
  with assms have e': "e' = (recount (e\<lparr>request_args := request_args e @ [req],
        errors := errors e @ [(Some req, t)]\<rparr>))
        \<lparr>stats := (stats (recount (e\<lparr>request_args := request_args e @ [req],
        errors := errors e @ [(Some req, t)]\<rparr>)))
           \<lparr>duration_seconds := duration_seconds (stats (recount (e\<lparr>request_args := request_args e @ [req],
        errors := errors e @ [(Some req, t)]\<rparr>))) + took\<rparr>\<rparr>"
    by (simp add: on_paged_chunk_done_def Let_def)
  have "grows e e' [req]"
    by (rule growsI [where ds = "[]" and es = "[(Some req, t)]"])
       (simp_all add: e' List.map_filter_simps)
  moreover have "counters_ok e'" by (simp add: e' counters_ok_def recount_def)
  ultimately show ?thesis by simp
qed

lemma paged_run_grows:
  "paged_run c m base limit (on_paged_chunk_done out) ps el e w = (el', e', w') \<Longrightarrow>
   \<exists>reqs. grows e e' reqs \<and> (ps < 20000 \<and> 0 < limit \<longrightarrow> reqs \<noteq> []) \<and>
          (counters_ok e \<longrightarrow> counters_ok e')"
proof (induction c m base limit "on_paged_chunk_done out" ps el e w rule: paged_run.induct)
  case (1 c m base limit ps el e w)
  show ?case
  proof (cases "ps < 20000 \<and> 0 < limit")
    case False
    with "1.prems" have "e' = e" by (simp split: if_splits)
    with False show ?thesis using grows_refl by blast
  next
    case True
    let ?kw = "dict_set ''limit'' (JInt limit) (dict_set ''start'' (JInt ps) base)"
    obtain res w1 where sc: "safe_call c m ?kw 1 w = (res, w1)"
      by (cases "safe_call c m ?kw 1 w")
    show ?thesis
    proof (cases res)
      case (Inl exc)
      obtain e2 w2 where cb: "on_paged_chunk_done out ?kw None (Some (str_exc exc)) 0 e w1 = (e2, w2)"
        by (cases "on_paged_chunk_done out ?kw None (Some (str_exc exc)) 0 e w1")
      with True sc Inl "1.prems" have "e' = e2" by simp
      with chunk_done_grows [OF cb] show ?thesis by blast
    next
      case (Inr rt)
      obtain result took where rt: "rt = (result, took)" by (cases rt)
      obtain e2 w2 where cb:
        "on_paged_chunk_done out ?kw (Some (serialize_response_data result)) None took e w1 = (e2, w2)"
        by (cases "on_paged_chunk_done out ?kw (Some (serialize_response_data result)) None took e w1")
      note g1 = chunk_done_grows [OF cb]
      show ?thesis
      proof (cases "extract_items result = [] \<or> int (length (extract_items result)) < limit")
        case stop: True
        with True sc Inr rt cb "1.prems" have "e' = e2" by (auto split: if_splits)
        with g1 show ?thesis by blast
      next
        case False
        with True sc Inr rt cb "1.prems"
        have rec: "paged_run c m base limit (on_paged_chunk_done out) (ps + limit) (el + took) e2 w2
                   = (el', e', w')" by simp
        from "1.hyps" [OF True refl sc [symmetric] Inr rt [symmetric] cb [symmetric] _ _ rec] False
        obtain reqs where r: "grows e2 e' reqs" "counters_ok e2 \<longrightarrow> counters_ok e'"
          by auto
        from grows_trans [OF conjunct1 [OF g1] r(1)] g1 r(2)
        show ?thesis by (intro exI [of _ "[?kw] @ reqs"]) simp
      qed
    qed
  qed
qed

lemma safe_call_loop_returned:
  "safe_call_loop c m kw n le st w = (Inr x, w') \<Longrightarrow>
   \<exists>k. calls w' = calls w @ replicate (Suc k) (m, kw)"
proof (induction n arbitrary: w le)
  case 0
  then show ?case by (auto split: option.splits)
next
  case (Suc n)
  obtain out w1 where inv: "invoke c m kw w = (out, w1)" by (cases "invoke c m kw w")
  then have l: "calls w1 = calls w @ [(m, kw)]"
    using calls_invoke [of c m kw w] by simp
  show ?case
  proof (cases out)
    case (Returns r)
    with Suc.prems inv l have "calls w' = calls w @ replicate (Suc 0) (m, kw)" by auto
    then show ?thesis by blast
  next
    case (Raises t)
    with Suc.prems inv have ne: "\<not> is_client_error t"
      and rec: "safe_call_loop c m kw n (Some (RemoteError t)) st w1 = (Inr x, w')"
      by (auto split: if_splits)
    from Suc.IH [OF rec] obtain k where "calls w' = calls w1 @ replicate (Suc k) (m, kw)"
      by blast
    then have "calls w' = calls w @ replicate (Suc (Suc k)) (m, kw)" using l by simp
    then show ?thesis by blast
  qed
qed

lemma safe_call_returned:
  "safe_call c m kw r w = (Inr x, w') \<Longrightarrow> \<exists>k. calls w' = calls w @ replicate (Suc k) (m, kw)"
  by (auto simp: safe_call_def split: if_splits dest: safe_call_loop_returned)

lemma write_json_files:
  "files (write_json out e w) p = (if out = Some p then Some (Stored e) else files w p)"
  by (auto simp: write_json_def split: option.splits)

lemma write_json_manifest [simp]: "manifest_file (write_json out e w) = manifest_file w"
  by (simp add: write_json_def split: option.splits)

text \<open>What a step leaves of the world: calls of the one request, and the one file.\<close>

lemma execute_call_world:
  assumes "execute_call c m out kw e w = (e', w')"
  shows "(\<exists>k. calls w' = calls w @ replicate k (m, kw)) \<and>
         (\<forall>p. files w' p = (if out = Some p then Some (Stored e') else files w p)) \<and>
         manifest_file w' = manifest_file w"
proof -
  obtain res w1 where sc: "safe_call c m kw 1 w = (res, w1)" by (cases "safe_call c m kw 1 w")
  from safe_call_calls [OF sc] obtain k where k: "calls w1 = calls w @ replicate k (m, kw)" ..
  note f = safe_call_files [OF sc]
  show ?thesis
  proof (cases res)
    case (Inl exc)
    with assms sc have "w' = write_json out e' w1"
      by (auto simp: execute_call_def Let_def)
    with k f show ?thesis by (auto simp: write_json_files)
  next
    case (Inr rt)
    with assms sc have "w' = write_json out e' w1"
      by (cases rt) (auto simp: execute_call_def Let_def)
    with k f show ?thesis by (auto simp: write_json_files)
  qed
qed

lemma execute_calls_world:
  "execute_calls c m out kws e w = (e', w') \<Longrightarrow>
   (\<exists>new. calls w' = calls w @ new \<and> (\<forall>cl \<in> set new. fst cl = m \<and> snd cl \<in> set kws)) \<and>
   (\<forall>p. out \<noteq> Some p \<longrightarrow> files w' p = files w p) \<and>
   manifest_file w' = manifest_file w"
proof (induction kws arbitrary: e w)
  case Nil
  then show ?case by simp
next
  case (Cons kw kws)
  obtain e1 w1 where st: "execute_call c m out kw e w = (e1, w1)"
    by (cases "execute_call c m out kw e w")
  with Cons.prems have rest: "execute_calls c m out kws e1 w1 = (e', w')" by simp
  from execute_call_world [OF st] obtain k where
    1: "calls w1 = calls w @ replicate k (m, kw)"
       "\<forall>p. files w1 p = (if out = Some p then Some (Stored e1) else files w p)"
       "manifest_file w1 = manifest_file w" by blast
  from Cons.IH [OF rest] obtain new where
    2: "calls w' = calls w1 @ new" "\<forall>cl \<in> set new. fst cl = m \<and> snd cl \<in> set kws"
       "\<forall>p. out \<noteq> Some p \<longrightarrow> files w' p = files w1 p"
       "manifest_file w' = manifest_file w1" by blast
  have "calls w' = calls w @ (replicate k (m, kw) @ new)" using 1 2 by simp
  moreover have "\<forall>cl \<in> set (replicate k (m, kw) @ new). fst cl = m \<and> snd cl \<in> set (kw # kws)"
    using 2(2) by auto
  ultimately have "\<exists>new. calls w' = calls w @ new \<and>
      (\<forall>cl \<in> set new. fst cl = m \<and> snd cl \<in> set (kw # kws))" by blast
  with 1 2 show ?case by simp
qed

lemma chunk_done_world:
  "on_paged_chunk_done out req resp err took e w = (e', w') \<Longrightarrow>
   calls w' = calls w \<and>
   (\<forall>p. files w' p = (if out = Some p then Some (Stored e') else files w p)) \<and>
   manifest_file w' = manifest_file w"
  by (auto simp: on_paged_chunk_done_def Let_def write_json_files)

lemma int_start_page:
  "int_start (dict_set ''limit'' (JInt limit) (dict_set ''start'' (JInt ps) base)) = Some ps"
  by (simp add: int_start_def map_of_dict_set)

lemma paged_run_world:
  "paged_run c m base limit (on_paged_chunk_done out) ps el e w = (el', e', w') \<Longrightarrow>
   (\<exists>new. calls w' = calls w @ new \<and>
      (\<forall>cl \<in> set new. fst cl = m \<and> (\<exists>s. int_start (snd cl) = Some s \<and> ps \<le> s)) \<and>
      (new \<noteq> [] \<longrightarrow> int_start (snd (hd new)) = Some ps)) \<and>
   (\<forall>p. out \<noteq> Some p \<longrightarrow> files w' p = files w p) \<and>
   manifest_file w' = manifest_file w"
proof (induction c m base limit "on_paged_chunk_done out" ps el e w rule: paged_run.induct)
  case (1 c m base limit ps el e w)
  show ?case
  proof (cases "ps < 20000 \<and> 0 < limit")
    case False
    with "1.prems" have "w' = w" by (simp split: if_splits)
    then show ?thesis by simp
  next
    case True
    let ?kw = "dict_set ''limit'' (JInt limit) (dict_set ''start'' (JInt ps) base)"
    obtain res w1 where sc: "safe_call c m ?kw 1 w = (res, w1)"
      by (cases "safe_call c m ?kw 1 w")
    from safe_call_calls [OF sc] obtain k where k: "calls w1 = calls w @ replicate k (m, ?kw)" ..
    note f = safe_call_files [OF sc]
    have first: "\<forall>cl \<in> set (replicate k (m, ?kw)).
        fst cl = m \<and> (\<exists>s. int_start (snd cl) = Some s \<and> ps \<le> s)"
      by (simp add: int_start_page)
    have hd1: "replicate k (m, ?kw) \<noteq> [] \<longrightarrow> int_start (snd (hd (replicate k (m, ?kw)))) = Some ps"
      by (cases k) (simp_all add: int_start_page)
    show ?thesis
    proof (cases res)
      case (Inl exc)
      obtain e2 w2 where cb: "on_paged_chunk_done out ?kw None (Some (str_exc exc)) 0 e w1 = (e2, w2)"
        by (cases "on_paged_chunk_done out ?kw None (Some (str_exc exc)) 0 e w1")
      with True sc Inl "1.prems" have "w' = w2" by simp
      with chunk_done_world [OF cb] k f first hd1 show ?thesis by auto
    next
      case (Inr rt)
      obtain result took where rt: "rt = (result, took)" by (cases rt)
      obtain e2 w2 where cb:
        "on_paged_chunk_done out ?kw (Some (serialize_response_data result)) None took e w1 = (e2, w2)"
        by (cases "on_paged_chunk_done out ?kw (Some (serialize_response_data result)) None took e w1")
      note cw = chunk_done_world [OF cb]
      show ?thesis
      proof (cases "extract_items result = [] \<or> int (length (extract_items result)) < limit")
        case stop: True
        with True sc Inr rt cb "1.prems" have "w' = w2" by (auto split: if_splits)
        with cw k f first hd1 show ?thesis by auto
      next
        case False
        with True sc Inr rt cb "1.prems"
        have rec: "paged_run c m base limit (on_paged_chunk_done out) (ps + limit) (el + took) e2 w2
                   = (el', e', w')" by simp
        from "1.hyps" [OF True refl sc [symmetric] Inr rt [symmetric] cb [symmetric] _ _ rec] False
        obtain new where n:
          "calls w' = calls w2 @ new"
          "\<forall>cl \<in> set new. fst cl = m \<and> (\<exists>s. int_start (snd cl) = Some s \<and> ps + limit \<le> s)"
          "\<forall>p. out \<noteq> Some p \<longrightarrow> files w' p = files w2 p"
          "manifest_file w' = manifest_file w2"
          by auto
        from safe_call_returned [of c m ?kw 1 w "(result, took)" w1] sc Inr rt k
        have kpos: "k \<noteq> 0" by (cases k) auto
        have a: "calls w' = calls w @ (replicate k (m, ?kw) @ new)" using n(1) cw k by simp
        have b: "\<forall>cl \<in> set (replicate k (m, ?kw) @ new).
            fst cl = m \<and> (\<exists>s. int_start (snd cl) = Some s \<and> ps \<le> s)"
          using first n(2) True by fastforce
        have c: "int_start (snd (hd (replicate k (m, ?kw) @ new))) = Some ps"
          using kpos by (cases k) (simp_all add: int_start_page)
        have "\<exists>new. calls w' = calls w @ new \<and>
          (\<forall>cl \<in> set new. fst cl = m \<and> (\<exists>s. int_start (snd cl) = Some s \<and> ps \<le> s)) \<and>
          (new \<noteq> [] \<longrightarrow> int_start (snd (hd new)) = Some ps)"
          using a b c by blast
        moreover have "\<forall>p. out \<noteq> Some p \<longrightarrow> files w' p = files w p"
          using n(3) cw f by auto
        moreover have "manifest_file w' = manifest_file w" using n(4) cw f by simp
        ultimately show ?thesis by blast
      qed
    qed
  qed
qed

section \<open>The branches of a method's harvest\<close>

lemma page_limit_extra: "page_limit (paged_extra m) = Inr 100"
  by (simp add: page_limit_def paged_extra_def py_int_def dict_set_def Let_def)

lemma execute_seed_cache:
  assumes "path_taken spec ctx incl existing = SeedCachePath"
  shows "\<exists>cached e2.
     seed_cache_hit ctx (spec_method spec)
       (start_envelope spec ctx (classify_call_type (spec_method spec) (signature spec)) existing)
       = Some cached \<and>
     e2 = (start_envelope spec ctx (classify_call_type (spec_method spec) (signature spec)) existing)
            \<lparr>request_args := request_args (start_envelope spec ctx
                 (classify_call_type (spec_method spec) (signature spec)) existing)
                 @ [[(''source'', JStr ''seed_cache'')]],
             data := data (start_envelope spec ctx
                 (classify_call_type (spec_method spec) (signature spec)) existing)
                 @ [([(''source'', JStr ''seed_cache'')], serialize_response_data cached)],
             stats := (stats (start_envelope spec ctx
                 (classify_call_type (spec_method spec) (signature spec)) existing))
                 \<lparr>attempted_calls := Suc (length (request_args (start_envelope spec ctx
                      (classify_call_type (spec_method spec) (signature spec)) existing))),
                  success_calls := Suc (length (data (start_envelope spec ctx
                      (classify_call_type (spec_method spec) (signature spec)) existing)))\<rparr>,
             status := Success\<rparr> \<and>
     execute_method_for_year c spec ctx incl out existing w = Some (Inr e2, write_json out e2 w)"
  using assms
  by (auto simp: path_taken_def execute_method_for_year_def Let_def
           split: option.splits if_splits sum.splits prod.splits list.splits)

lemma execute_paged:
  assumes "path_taken spec ctx incl existing = PagedPath"
  shows "\<exists>r el e1 w1.
     resume_start_of (start_envelope spec ctx Paged existing) (paged_extra (spec_method spec)) = Inr r \<and>
     paged_run c (spec_method spec) (paged_extra (spec_method spec)) 100 (on_paged_chunk_done out)
       (max 0 r) 0 (start_envelope spec ctx Paged existing) w = (el, e1, w1) \<and>
     execute_method_for_year c spec ctx incl out existing w =
       Some (Inr (e1\<lparr>status := paged_status (stats e1)\<rparr>), w1)"
proof -
  let ?m = "spec_method spec"
  let ?env = "start_envelope spec ctx Paged existing"
  from assms have ct: "classify_call_type ?m (signature spec) = Paged"
    and nohit: "seed_cache_hit ctx ?m ?env = None"
    by (auto simp: path_taken_def Let_def
             split: option.splits if_splits sum.splits prod.splits list.splits)
  have "\<exists>r. resume_start_of ?env (paged_extra ?m) = Inr r"
    by (simp add: resume_start_of_def Let_def page_limit_extra)
  then obtain r where r: "resume_start_of ?env (paged_extra ?m) = Inr r" ..
  obtain el e1 w1 where run:
    "paged_run c ?m (paged_extra ?m) 100 (on_paged_chunk_done out) (max 0 r) 0 ?env w = (el, e1, w1)"
    by (cases "paged_run c ?m (paged_extra ?m) 100 (on_paged_chunk_done out) (max 0 r) 0 ?env w")
  have "execute_paged_method c ?m (paged_extra ?m) r (on_paged_chunk_done out) ?env w
        = Some (Inr (el, e1, w1))"
    by (simp add: execute_paged_method_def page_limit_extra paged_loop_run run
             del: paged_run.simps)
  then have "execute_method_for_year c spec ctx incl out existing w =
       Some (Inr (e1\<lparr>status := paged_status (stats e1)\<rparr>), w1)"
    using ct nohit r by (simp add: execute_method_for_year_def Let_def)
  with r run show ?thesis by blast
qed

lemma execute_skip:
  assumes "path_taken spec ctx incl existing = SkipPath"
  shows "\<exists>reason e1.
     build_calls_for_method (spec_method spec) (signature spec)
        (classify_call_type (spec_method spec) (signature spec)) ctx incl = Some (Inr ([], Some reason)) \<and>
     e1 = recount ((start_envelope spec ctx (classify_call_type (spec_method spec) (signature spec)) existing)
            \<lparr>status := Skipped,
             errors := errors (start_envelope spec ctx
                (classify_call_type (spec_method spec) (signature spec)) existing) @ [(None, reason)]\<rparr>) \<and>
     execute_method_for_year c spec ctx incl out existing w = Some (Inr e1, write_json out e1 w)"
  using assms
  by (auto simp: path_taken_def execute_method_for_year_def Let_def
           split: option.splits if_splits sum.splits prod.splits list.splits)

lemma execute_sequential:
  assumes "path_taken spec ctx incl existing = SequentialPath"
  shows "\<exists>plan reason e1 w1.
     classify_call_type (spec_method spec) (signature spec) \<noteq> Paged \<and>
     build_calls_for_method (spec_method spec) (signature spec)
        (classify_call_type (spec_method spec) (signature spec)) ctx incl = Some (Inr (plan, reason)) \<and>
     (plan \<noteq> [] \<or> reason = None) \<and>
     execute_calls c (spec_method spec) out
       (filter (\<lambda>kwargs. request_key kwargs \<notin> set (get_completed_request_keys
           (start_envelope spec ctx (classify_call_type (spec_method spec) (signature spec)) existing))) plan)
       (start_envelope spec ctx (classify_call_type (spec_method spec) (signature spec)) existing) w
       = (e1, w1) \<and>
     execute_method_for_year c spec ctx incl out existing w =
       Some (Inr (e1\<lparr>status := final_status (stats e1)\<rparr>), w1)"
  using assms
  by (auto simp: path_taken_def execute_method_for_year_def Let_def
           split: option.splits if_splits sum.splits prod.splits list.splits)

lemma execute_raise:
  assumes "path_taken spec ctx incl existing = RaisePath"
  shows "execute_method_for_year c spec ctx incl out existing w = None \<or>
         (\<exists>exc. execute_method_for_year c spec ctx incl out existing w = Some (Inl exc, w))"
  using assms
  by (auto simp: path_taken_def execute_method_for_year_def Let_def
           split: option.splits if_splits sum.splits prod.splits list.splits)

section \<open>The status of a finished run\<close>

text \<open>No more data items than requests: what the bookkeeping of earlier runs guarantees.\<close>

lemma recorded_once_lengths:
  "recorded_once e \<Longrightarrow> length (data e) \<le> length (request_args e)"
proof -
  assume "recorded_once e"
  then have "size (mset (request_args e)) =
             size (mset (map fst (data e)) + mset (error_requests e))"
    by (simp add: recorded_once_def)
  then show ?thesis by simp
qed

lemma grows_lengths:
  assumes "grows e e' reqs" and "length (data e) \<le> length (request_args e)"
  shows "length (data e') \<le> length (request_args e')"
proof -
  from assms(1) [unfolded grows_def] obtain ds es where
    g: "request_args e' = request_args e @ reqs" "data e' = data e @ ds"
       "mset reqs = mset (map fst ds) + mset (List.map_filter fst es)"
       "errors e' = errors e @ es"
    by blast
  from g(3) have "size (mset reqs) = size (mset (map fst ds) + mset (List.map_filter fst es))"
    by simp
  then have "length ds \<le> length reqs" by simp
  with g(1,2) assms(2) show ?thesis by simp
qed

lemma start_envelope_counters: "counters_ok (start_envelope spec ctx ct existing)"
  by (simp add: start_envelope_def)

lemma start_envelope_fresh:
  "fresh_start spec existing \<Longrightarrow>
   start_envelope spec ctx ct existing = recount (fresh_envelope spec ctx ct)"
  by (auto simp: start_envelope_def fresh_start_def split: option.splits)

lemma start_envelope_lists:
  "request_args (start_envelope spec ctx ct existing) =
     (if fresh_start spec existing then [] else request_args (the existing))"
  "data (start_envelope spec ctx ct existing) =
     (if fresh_start spec existing then [] else data (the existing))"
  "errors (start_envelope spec ctx ct existing) =
     (if fresh_start spec existing then [] else errors (the existing))"
  by (auto simp: start_envelope_def fresh_start_def fresh_envelope_def split: option.splits)

lemma start_envelope_lengths:
  "prior_ok existing \<Longrightarrow>
   length (data (start_envelope spec ctx ct existing))
     \<le> length (request_args (start_envelope spec ctx ct existing))"
  by (cases existing)
     (auto simp: start_envelope_lists fresh_start_def prior_ok_def dest: recorded_once_lengths)

lemma final_status_table:
  assumes "counters_ok e" and "length (data e) \<le> length (request_args e)"
  shows "status_table (e\<lparr>status := final_status (stats e)\<rparr>)"
  using assms by (auto simp: status_table_def final_status_def counters_ok_def)

lemma paged_status_table:
  assumes "counters_ok e" and "length (data e) \<le> length (request_args e)"
    and "request_args e \<noteq> []"
  shows "status_table (e\<lparr>status := paged_status (stats e)\<rparr>)"
  using assms by (auto simp: status_table_def paged_status_def counters_ok_def)

lemma resume_start_no_data:
  "data e = [] \<Longrightarrow> resume_start_of e extra = Inr 0"
  by (simp add: resume_start_of_def List.map_filter_simps)

text \<open>
  Claim C1, as amended. Let a run of \<^verbatim>\<open>execute_method_for_year\<close> return an envelope.
  If the prior envelope (if any) records every request once, and the run starts from a fresh
  envelope or goes through the paged loop or through the loop over the pending calls, the
  final status satisfies the derivation table: success iff \<open>success > 0\<close> and \<open>failed = 0\<close>,
  partial iff \<open>success > 0\<close> and \<open>failed > 0\<close>, failed iff \<open>attempted > 0\<close> and
  \<open>success = 0\<close>, skipped iff \<open>attempted = 0\<close>. Whatever the prior envelope is, a run that
  adopts the seed cache ends with status success and a run whose plan is empty with a skip
  reason ends with status skipped.
\<close>

theorem status_follows_table:
  assumes run: "execute_method_for_year c spec ctx incl out existing w = Some (Inr e, w')"
  shows "(prior_ok existing \<and>
          (fresh_start spec existing \<or>
           path_taken spec ctx incl existing = PagedPath \<or>
           path_taken spec ctx incl existing = SequentialPath) \<longrightarrow> status_table e) \<and>
         (path_taken spec ctx incl existing = SeedCachePath \<longrightarrow> status e = Success) \<and>
         (path_taken spec ctx incl existing = SkipPath \<longrightarrow> status e = Skipped)"
proof (cases "path_taken spec ctx incl existing")
  case SeedCachePath
  from execute_seed_cache [OF SeedCachePath, of c out w] run
  have s: "status e = Success" by auto
  have "status_table e" if fresh: "fresh_start spec existing"
  proof -
    from execute_seed_cache [OF SeedCachePath, of c out w] run fresh
    have "status e = Success \<and> success_calls (stats e) = 1 \<and> failed_calls (stats e) = 0 \<and>
          attempted_calls (stats e) = 1"
      by (auto simp: start_envelope_fresh fresh_envelope_def recount_def)
    then show ?thesis by (simp add: status_table_def)
  qed
  with s SeedCachePath show ?thesis by simp
next
  case PagedPath
  have "status_table e" if prior: "prior_ok existing"
  proof -
    let ?env = "start_envelope spec ctx Paged existing"
    from execute_paged [OF PagedPath, of c out w] run obtain r el e1 w1 where
      r: "resume_start_of ?env (paged_extra (spec_method spec)) = Inr r"
      and pr: "paged_run c (spec_method spec) (paged_extra (spec_method spec)) 100
                 (on_paged_chunk_done out) (max 0 r) 0 ?env w = (el, e1, w1)"
      and e: "e = e1\<lparr>status := paged_status (stats e1)\<rparr>"
      by auto
    from paged_run_grows [OF pr] obtain reqs where
      g: "grows ?env e1 reqs" "max 0 r < 20000 \<longrightarrow> reqs \<noteq> []" "counters_ok e1"
      using start_envelope_counters by auto
    have len: "length (data e1) \<le> length (request_args e1)"
      by (rule grows_lengths [OF g(1) start_envelope_lengths [OF prior]])
    have "request_args e1 \<noteq> []"
    proof (cases "data e1 = []")
      case True
      with g(1) have "data ?env = []" by (auto simp: grows_def)
      with r have "r = 0" by (simp add: resume_start_no_data)
      with g(2) have "reqs \<noteq> []" by simp
      with g(1) show ?thesis by (auto simp: grows_def)
    next
      case False
      with len show ?thesis by auto
    qed
    with paged_status_table [OF g(3) len] e show ?thesis by simp
  qed
  with PagedPath show ?thesis by simp
next
  case SkipPath
  from execute_skip [OF SkipPath, of c out w] run
  have s: "status e = Skipped" by auto
  have "status_table e" if fresh: "fresh_start spec existing"
  proof -
    from execute_skip [OF SkipPath, of c out w] run fresh
    have "status e = Skipped \<and> success_calls (stats e) = 0 \<and> attempted_calls (stats e) = 0"
      by (auto simp: start_envelope_fresh fresh_envelope_def recount_def)
    then show ?thesis by (simp add: status_table_def)
  qed
  with s SkipPath show ?thesis by simp
next
  case SequentialPath
  have "status_table e" if prior: "prior_ok existing"
  proof -
    let ?ct = "classify_call_type (spec_method spec) (signature spec)"
    let ?env = "start_envelope spec ctx ?ct existing"
    from execute_sequential [OF SequentialPath, of c out w] run obtain pending e1 w1 where
      ex: "execute_calls c (spec_method spec) out pending ?env w = (e1, w1)"
      and e: "e = e1\<lparr>status := final_status (stats e1)\<rparr>"
      by auto
    from execute_calls_grows [OF ex] have g: "grows ?env e1 pending" "counters_ok e1"
      using start_envelope_counters by auto
    have len: "length (data e1) \<le> length (request_args e1)"
      by (rule grows_lengths [OF g(1) start_envelope_lengths [OF prior]])
    from final_status_table [OF g(2) len] e show ?thesis by simp
  qed
  with SequentialPath show ?thesis by simp
next
  case RaisePath
  from execute_raise [OF RaisePath, of c out w] run show ?thesis by auto
qed

lemma classify_devices: "classify_call_type ''get_devices'' ''get_devices()'' = Noarg"
  by code_simp

lemma devices_first_run:
  "execute_method_for_year down_client spec_devices ctx_plain True None None world_init =
     Some (Inr failed_devices,
           world_init\<lparr>calls := [(''get_devices'', []), (''get_devices'', [])], clock := 2\<rparr>)"
  by (simp add: execute_method_for_year_def spec_devices_def classify_devices start_envelope_def
      fresh_envelope_def recount_def seed_cache_hit_def ctx_plain_def build_calls_for_method_def
      get_completed_request_keys_def execute_call_def safe_call_def invoke_def down_client_def
      is_client_error_def world_init_def failed_devices_def final_status_def write_json_def
      eval_nat_numeral Let_def)

lemma devices_second_run:
  "execute_method_for_year down_client spec_devices ctx_cached True None (Some failed_devices)
     (world_init\<lparr>calls := [(''get_devices'', []), (''get_devices'', [])], clock := 2\<rparr>) =
     Some (Inr (failed_devices
                 \<lparr>request_args := [[], [(''source'', JStr ''seed_cache'')]],
                  data := [([(''source'', JStr ''seed_cache'')],
                            JList [JDict [(''deviceId'', JInt 7)]])],
                  stats := \<lparr>attempted_calls = 2, success_calls = 1, failed_calls = 1,
                            duration_seconds = 2\<rparr>,
                  status := Success\<rparr>),
           world_init\<lparr>calls := [(''get_devices'', []), (''get_devices'', [])], clock := 2\<rparr>)"
  by (simp add: execute_method_for_year_def spec_devices_def classify_devices start_envelope_def
      recount_def seed_cache_hit_def ctx_cached_def ctx_plain_def serialize_response_data_def
      world_init_def failed_devices_def write_json_def Let_def)

text \<open>
  Claim C1 as stated fails for a resumed envelope. The first run of \<^verbatim>\<open>get_devices\<close> meets a
  service that is down and leaves a failed envelope with one error. In the second run the
  bootstrap has cached the device list: the run adopts it and marks the envelope success
  although \<open>failed_calls\<close> is still 1, where the table demands partial.
\<close>

theorem resumed_seed_cache_breaks_table:
  "execute_method_for_year down_client spec_devices ctx_plain True None None world_init =
     Some (Inr failed_devices,
           world_init\<lparr>calls := [(''get_devices'', []), (''get_devices'', [])], clock := 2\<rparr>) \<and>
   (case execute_method_for_year down_client spec_devices ctx_cached True None (Some failed_devices)
           (world_init\<lparr>calls := [(''get_devices'', []), (''get_devices'', [])], clock := 2\<rparr>) of
      Some (Inr e, w) \<Rightarrow>
        status e = Success \<and> success_calls (stats e) = 1 \<and> failed_calls (stats e) = 1 \<and>
        \<not> status_table e
    | _ \<Rightarrow> False)"
  unfolding devices_first_run devices_second_run
  by (simp add: status_table_def failed_devices_def)

lemma classify_download:
  "classify_call_type ''download_activity''
     ''download_activity(activity_id, dl_fmt=ActivityDownloadFormat.TCX)'' = Download"
  by code_simp

lemma devices_cached_path:
  "path_taken spec_devices ctx_cached True (Some failed_devices) = SeedCachePath"
  by (simp add: path_taken_def spec_devices_def classify_devices start_envelope_def
      recount_def seed_cache_hit_def ctx_cached_def ctx_plain_def failed_devices_def Let_def)

lemma download_resumed_path:
  "path_taken spec_download ctx_plain False (Some failed_download) = SkipPath"
  by (simp add: path_taken_def spec_download_def classify_download start_envelope_def
      recount_def seed_cache_hit_def ctx_plain_def failed_download_def
      build_calls_for_method_def Let_def)

lemma download_resumed_run:
  "execute_method_for_year down_client spec_download ctx_plain False None (Some failed_download)
     world_init =
   Some (Inr (failed_download
               \<lparr>status := Skipped,
                errors := [(Some [(''activity_id'', JInt 5)], ''503 Server Error''),
                           (None, ''download_disabled'')],
                stats := \<lparr>attempted_calls = 1, success_calls = 0, failed_calls = 2,
                          duration_seconds = 2\<rparr>\<rparr>), world_init)"
  by (simp add: execute_method_for_year_def spec_download_def classify_download start_envelope_def
      recount_def seed_cache_hit_def ctx_plain_def failed_download_def
      build_calls_for_method_def write_json_def Let_def)

theorem status_follows_table_witness:
  "prior_ok None \<and> fresh_start spec_devices None \<and> status_table failed_devices \<and>
   path_taken spec_devices ctx_cached True (Some failed_devices) = SeedCachePath \<and>
   path_taken spec_download ctx_plain False (Some failed_download) = SkipPath \<and>
   (case execute_method_for_year down_client spec_devices ctx_cached True None (Some failed_devices)
           (world_init\<lparr>calls := [(''get_devices'', []), (''get_devices'', [])], clock := 2\<rparr>) of
      Some (Inr e, w) \<Rightarrow> status e = Success \<and> failed_calls (stats e) = 1
    | _ \<Rightarrow> False) \<and>
   (case execute_method_for_year down_client spec_download ctx_plain False None (Some failed_download)
           world_init of
      Some (Inr e, w) \<Rightarrow> status e = Skipped \<and> attempted_calls (stats e) = 1
    | _ \<Rightarrow> False)"
proof -
  have p: "prior_ok None" by (simp add: prior_ok_def)
  have f: "fresh_start spec_devices None" by (simp add: fresh_start_def)
  from status_follows_table [OF devices_first_run] p f
  have t: "status_table failed_devices" by simp
  from status_follows_table [OF devices_second_run] devices_cached_path
  have s1: "status (failed_devices
                 \<lparr>request_args := [[], [(''source'', JStr ''seed_cache'')]],
                  data := [([(''source'', JStr ''seed_cache'')],
                            JList [JDict [(''deviceId'', JInt 7)]])],
                  stats := \<lparr>attempted_calls = 2, success_calls = 1, failed_calls = 1,
                            duration_seconds = 2\<rparr>,
                  status := Success\<rparr>) = Success" by simp
  from status_follows_table [OF download_resumed_run] download_resumed_path
  have s2: "status (failed_download
               \<lparr>status := Skipped,
                errors := [(Some [(''activity_id'', JInt 5)], ''503 Server Error''),
                           (None, ''download_disabled'')],
                stats := \<lparr>attempted_calls = 1, success_calls = 0, failed_calls = 2,
                          duration_seconds = 2\<rparr>\<rparr>) = Skipped" by simp
  show ?thesis
    unfolding devices_second_run download_resumed_run
    using p f t devices_cached_path download_resumed_path s1 s2 by simp
qed

section \<open>Requests, data items and error items\<close>

lemma grows_recorded_once:
  assumes "grows e e' reqs" and "recorded_once e"
  shows "recorded_once e'"
proof -
  from assms(1) [unfolded grows_def] obtain ds es where
    g: "request_args e' = request_args e @ reqs" "data e' = data e @ ds"
       "errors e' = errors e @ es"
       "mset reqs = mset (map fst ds) + mset (List.map_filter fst es)"
    by blast
  with assms(2) show ?thesis
    by (simp add: recorded_once_def error_requests_def map_filter_append)
qed







lemma status_update_ledger [simp]:
  "recorded_once (e\<lparr>status := s\<rparr>) = recorded_once e"
  "counters_ok (e\<lparr>status := s\<rparr>) = counters_ok e"
  "errors (e\<lparr>status := s\<rparr>) = errors e"
  by (simp_all add: recorded_once_def counters_ok_def error_requests_def)



lemma attempts_nil [simp]: "data_of [] = []" "errors_of [] = []"
  by (simp_all add: data_of_def errors_of_def List.map_filter_simps)





lemma records_status [simp]: "records e (e'\<lparr>status := s\<rparr>) atts = records e e' atts"
  by (simp add: records_def)






lemma path_paged_type:
  "path_taken spec ctx incl existing = PagedPath \<Longrightarrow>
   classify_call_type (spec_method spec) (signature spec) = Paged"
  by (auto simp: path_taken_def Let_def
           split: option.splits if_splits sum.splits prod.splits list.splits)









section \<open>Re-running a finished method\<close>

lemma stored_finished_envelope:
  assumes "files w (section_slug spec, spec_method spec) = Some (Stored e)"
    and "status e = Success \<or> status e = Skipped"
  shows "run_method_envelope c ctx year False incl spec w = Some (e, w)"
  using assms
  by (auto simp: run_method_envelope_def read_json_if_exists_def Let_def)

text \<open>
  Claim C3. When the file of a method holds an envelope with status success or skipped and
  overwrite is not requested, \<^verbatim>\<open>run_method\<close> returns that envelope as it is and leaves the world
  as it was: the call log has no new entry (no remote call is issued), the clock has not
  moved and no file is written. The manifest entry is made from the stored envelope.
\<close>

theorem finished_method_is_not_rerun:
  assumes stored: "files w (section_slug spec, spec_method spec) = Some (Stored e)"
    and fin: "status e = Success \<or> status e = Skipped"
  shows "run_method_envelope c ctx year False incl spec w = Some (e, w) \<and>
         run_method c ctx year False incl spec w =
           Some (manifest_item_of spec (section_slug spec, spec_method spec) e, w)"
  using stored_finished_envelope [OF stored fin] by (simp add: run_method_def)

theorem finished_method_is_not_rerun_witness:
  "files (world_init\<lparr>files := [(''activities_workouts'', ''download_activity'') \<mapsto> Stored skipped_download]\<rparr>)
     (section_slug spec_download, spec_method spec_download) = Some (Stored skipped_download) \<and>
   status skipped_download = Skipped \<and>
   run_method_envelope down_client ctx_plain 2025 False True spec_download
     (world_init\<lparr>files := [(''activities_workouts'', ''download_activity'') \<mapsto> Stored skipped_download]\<rparr>)
   = Some (skipped_download,
           world_init\<lparr>files := [(''activities_workouts'', ''download_activity'') \<mapsto> Stored skipped_download]\<rparr>)"
proof -
  let ?w = "world_init\<lparr>files := [(''activities_workouts'', ''download_activity'') \<mapsto> Stored skipped_download]\<rparr>"
  have a: "files ?w (section_slug spec_download, spec_method spec_download) = Some (Stored skipped_download)"
    by (simp add: spec_download_def)
  have b: "status skipped_download = Success \<or> status skipped_download = Skipped"
    by (simp add: skipped_download_def)
  from finished_method_is_not_rerun [OF a b, of down_client ctx_plain 2025 True] a b
  show ?thesis by (simp add: skipped_download_def)
qed

text \<open>A run leaves its envelope in the method's file.\<close>

lemma run_method_envelope_stored:
  assumes "run_method_envelope c ctx year overwrite incl spec w = Some (e, w1)"
  shows "files w1 (section_slug spec, spec_method spec) = Some (Stored e)"
proof -
  have h: "files w1 (section_slug spec, spec_method spec) = Some (Stored e)"
    if "harvest_method c ctx year overwrite incl spec ex w = Some (e, w1)" for ex
    using that
    by (auto simp: harvest_method_def Let_def write_json_files
             split: option.splits sum.splits prod.splits)
  from assms show ?thesis
    by (auto simp: run_method_envelope_def read_json_if_exists_def Let_def h
             split: if_splits option.splits stored_file.splits)
qed

text \<open>
  Running a method a second time, without overwrite, after a run that ended success or
  skipped: the envelope and the world stay as the first run left them.
\<close>

lemma second_run_changes_nothing:
  assumes "run_method_envelope c ctx year overwrite incl spec w = Some (e, w1)"
    and "status e = Success \<or> status e = Skipped"
  shows "run_method_envelope c' ctx' year' False incl' spec w1 = Some (e, w1)"
  by (rule stored_finished_envelope [OF run_method_envelope_stored [OF assms(1)] assms(2)])

section \<open>Resuming a paged harvest\<close>

lemma start_envelope_same:
  "env_method e0 = spec_method spec \<Longrightarrow>
   data (start_envelope spec ctx ct (Some e0)) = data e0 \<and>
   request_args (start_envelope spec ctx ct (Some e0)) = request_args e0 \<and>
   errors (start_envelope spec ctx ct (Some e0)) = errors e0 \<and>
   success_calls (stats (start_envelope spec ctx ct (Some e0))) = length (data e0)"
  by (simp add: start_envelope_def recount_def)

lemma seed_cache_needs_no_success:
  "success_calls (stats e) \<noteq> 0 \<Longrightarrow> seed_cache_hit ctx m e = None"
  by (simp add: seed_cache_hit_def split: option.splits)

text \<open>
  Claim C4. Let a paged method be resumed from a prior envelope of the same method whose
  successful pages have the highest cursor \<open>K \<ge> 0\<close>, with page size \<open>limit\<close> (always 100).
  Then the run returns, every remote call it issues has an integer \<^verbatim>\<open>start\<close> above \<open>K\<close> (no page
  at a cursor up to \<open>K\<close> is executed again), and the first call it issues, if it issues one,
  has \<^verbatim>\<open>start\<close> equal to \<open>K + limit\<close>.
\<close>

theorem resumed_paged_run_continues:
  assumes ct: "classify_call_type (spec_method spec) (signature spec) = Paged"
    and same: "env_method e0 = spec_method spec"
    and pages: "List.map_filter (\<lambda>(req, resp). int_start req) (data e0) \<noteq> []"
    and K: "K = Max (set (List.map_filter (\<lambda>(req, resp). int_start req) (data e0)))"
    and nonneg: "0 \<le> K"
    and limit: "page_limit (paged_extra (spec_method spec)) = Inr limit"
  shows "\<exists>e w' new.
     execute_method_for_year c spec ctx incl out (Some e0) w = Some (Inr e, w') \<and>
     calls w' = calls w @ new \<and>
     (new \<noteq> [] \<longrightarrow> int_start (snd (hd new)) = Some (K + limit)) \<and>
     (\<forall>cl \<in> set new. fst cl = spec_method spec \<and>
        (\<exists>s. int_start (snd cl) = Some s \<and> K < s))"
proof -
  let ?env = "start_envelope spec ctx Paged (Some e0)"
  have l100: "limit = 100" using limit by (simp add: page_limit_extra)
  from pages have "data e0 \<noteq> []" by (auto simp: List.map_filter_simps)
  then have "success_calls (stats ?env) \<noteq> 0"
    using start_envelope_same [OF same, of ctx Paged] by simp
  then have nohit: "seed_cache_hit ctx (spec_method spec) ?env = None"
    by (rule seed_cache_needs_no_success)
  have path: "path_taken spec ctx incl (Some e0) = PagedPath"
    using ct nohit by (simp add: path_taken_def Let_def)
  have res: "resume_start_of ?env (paged_extra (spec_method spec)) = Inr (K + 100)"
    using pages K start_envelope_same [OF same, of ctx Paged]
    by (simp add: resume_start_of_def Let_def page_limit_extra)
  from execute_paged [OF path, of c out w] res obtain el e1 w1 where
    pr: "paged_run c (spec_method spec) (paged_extra (spec_method spec)) 100
           (on_paged_chunk_done out) (max 0 (K + 100)) 0 ?env w = (el, e1, w1)"
    and ex: "execute_method_for_year c spec ctx incl out (Some e0) w =
             Some (Inr (e1\<lparr>status := paged_status (stats e1)\<rparr>), w1)"
    by auto
  have m: "max 0 (K + 100) = K + 100" using nonneg by simp
  from paged_run_world [OF pr] obtain new where
    n: "calls w1 = calls w @ new"
       "\<forall>cl \<in> set new. fst cl = spec_method spec \<and>
          (\<exists>s. int_start (snd cl) = Some s \<and> max 0 (K + 100) \<le> s)"
       "new \<noteq> [] \<longrightarrow> int_start (snd (hd new)) = Some (max 0 (K + 100))"
    by blast
  have "\<forall>cl \<in> set new. fst cl = spec_method spec \<and> (\<exists>s. int_start (snd cl) = Some s \<and> K < s)"
    using n(2) m by fastforce
  with ex n(1) n(3) m l100 show ?thesis by auto
qed

lemma classify_activities:
  "classify_call_type ''get_activities'' ''get_activities(start=0, limit=20, activitytype=None)'' = Paged"
  by code_simp

lemma one_page_starts:
  "List.map_filter (\<lambda>(req, resp). int_start req) (data one_page_done) = [0]"
  by (simp add: one_page_done_def List.map_filter_simps int_start_def)

lemma resumed_activities_run:
  "map_option (\<lambda>(r, w). (map_sum id status r, calls w))
     (execute_method_for_year idle_client spec_activities ctx_plain True None (Some one_page_done) world_init)
   = Some (Inr Partial, [(''get_activities'', [(''limit'', JInt 100), (''start'', JInt 100)])])"
  by code_simp

theorem resumed_paged_run_continues_witness:
  "classify_call_type (spec_method spec_activities) (signature spec_activities) = Paged \<and>
   env_method one_page_done = spec_method spec_activities \<and>
   List.map_filter (\<lambda>(req, resp). int_start req) (data one_page_done) = [0] \<and>
   page_limit (paged_extra (spec_method spec_activities)) = Inr 100 \<and>
   (\<exists>e w' new.
      execute_method_for_year idle_client spec_activities ctx_plain True None (Some one_page_done)
        world_init = Some (Inr e, w') \<and>
      calls w' = calls world_init @ new \<and>
      int_start (snd (hd new)) = Some 100 \<and> new \<noteq> [])"
proof -
  have ct: "classify_call_type (spec_method spec_activities) (signature spec_activities) = Paged"
    by (simp add: spec_activities_def classify_activities)
  have same: "env_method one_page_done = spec_method spec_activities"
    by (simp add: one_page_done_def spec_activities_def)
  have pages: "List.map_filter (\<lambda>(req, resp). int_start req) (data one_page_done) \<noteq> []"
    by (simp add: one_page_starts)
  have K: "(0::int) = Max (set (List.map_filter (\<lambda>(req, resp). int_start req) (data one_page_done)))"
    by (simp add: one_page_starts)
  have lim: "page_limit (paged_extra (spec_method spec_activities)) = Inr 100"
    by (rule page_limit_extra)
  from resumed_paged_run_continues [OF ct same pages K _ lim, of idle_client ctx_plain True None world_init]
  obtain e w' new where
    r: "execute_method_for_year idle_client spec_activities ctx_plain True None (Some one_page_done)
          world_init = Some (Inr e, w')"
       "calls w' = calls world_init @ new"
       "new \<noteq> [] \<longrightarrow> int_start (snd (hd new)) = Some 100"
    by auto
  from resumed_activities_run r(1,2) have "new \<noteq> []"
    by (auto simp: world_init_def)
  with r ct same lim one_page_starts show ?thesis by blast
qed

lemma chunk_done_request:
  "on_paged_chunk_done out req resp err took e w = (e', w') \<Longrightarrow>
   request_args e' = request_args e @ [req]"
  by (auto simp: on_paged_chunk_done_def Let_def split: option.splits)

lemma paged_run_cursors:
  "paged_run c m base limit (on_paged_chunk_done out) ps el e w = (el', e', w') \<Longrightarrow>
   \<exists>reqs. request_args e' = request_args e @ reqs \<and>
          (\<forall>req \<in> set reqs. \<exists>s. int_start req = Some s \<and> ps \<le> s)"
proof (induction c m base limit "on_paged_chunk_done out" ps el e w rule: paged_run.induct)
  case (1 c m base limit ps el e w)
  show ?case
  proof (cases "ps < 20000 \<and> 0 < limit")
    case False
    with "1.prems" have "e' = e" by (simp split: if_splits)
    then show ?thesis by simp
  next
    case True
    let ?kw = "dict_set ''limit'' (JInt limit) (dict_set ''start'' (JInt ps) base)"
    obtain res w1 where sc: "safe_call c m ?kw 1 w = (res, w1)"
      by (cases "safe_call c m ?kw 1 w")
    show ?thesis
    proof (cases res)
      case (Inl exc)
      obtain e2 w2 where cb: "on_paged_chunk_done out ?kw None (Some (str_exc exc)) 0 e w1 = (e2, w2)"
        by (cases "on_paged_chunk_done out ?kw None (Some (str_exc exc)) 0 e w1")
      with True sc Inl "1.prems" have "e' = e2" by simp
      with chunk_done_request [OF cb] show ?thesis by (simp add: int_start_page)
    next
      case (Inr rt)
      obtain result took where rt: "rt = (result, took)" by (cases rt)
      obtain e2 w2 where cb:
        "on_paged_chunk_done out ?kw (Some (serialize_response_data result)) None took e w1 = (e2, w2)"
        by (cases "on_paged_chunk_done out ?kw (Some (serialize_response_data result)) None took e w1")
      note r1 = chunk_done_request [OF cb]
      show ?thesis
      proof (cases "extract_items result = [] \<or> int (length (extract_items result)) < limit")
        case stop: True
        with True sc Inr rt cb "1.prems" have "e' = e2" by (auto split: if_splits)
        with r1 show ?thesis by (simp add: int_start_page)
      next
        case False
        with True sc Inr rt cb "1.prems"
        have rec: "paged_run c m base limit (on_paged_chunk_done out) (ps + limit) (el + took) e2 w2
                   = (el', e', w')" by simp
        from "1.hyps" [OF True refl sc [symmetric] Inr rt [symmetric] cb [symmetric] _ _ rec] False
        obtain reqs where r: "request_args e' = request_args e2 @ reqs"
          "\<forall>req \<in> set reqs. \<exists>s. int_start req = Some s \<and> ps + limit \<le> s"
          by auto
        have "request_args e' = request_args e @ (?kw # reqs)" using r(1) r1 by simp
        moreover have "\<forall>req \<in> set (?kw # reqs). \<exists>s. int_start req = Some s \<and> ps \<le> s"
          using r(2) True by (fastforce simp: int_start_page)
        ultimately show ?thesis by blast
      qed
    qed
  qed
qed

text \<open>
  The pages a paged harvest records from a fresh envelope have cursors that are integers from
  0 on: the highest completed cursor of an envelope the program wrote is never negative.
\<close>

lemma recorded_pages_nonneg:
  assumes path: "path_taken spec ctx incl existing = PagedPath"
    and fresh: "fresh_start spec existing"
    and run: "execute_method_for_year c spec ctx incl out existing w = Some (Inr e, w')"
  shows "\<forall>(req, resp) \<in> set (data e). \<exists>s. int_start req = Some s \<and> 0 \<le> s"
proof -
  let ?env = "start_envelope spec ctx Paged existing"
  from execute_paged [OF path, of c out w] run obtain r el e1 w1 where
    pr: "paged_run c (spec_method spec) (paged_extra (spec_method spec)) 100
               (on_paged_chunk_done out) (max 0 r) 0 ?env w = (el, e1, w1)"
    and e: "e = e1\<lparr>status := paged_status (stats e1)\<rparr>"
    by auto
  from paged_run_cursors [OF pr] fresh obtain reqs where
    c: "request_args e1 = reqs" "\<forall>req \<in> set reqs. \<exists>s. int_start req = Some s \<and> max 0 r \<le> s"
    by (auto simp: start_envelope_lists)
  have ro: "recorded_once ?env"
    using fresh by (simp add: start_envelope_fresh recorded_once_def error_requests_def
        fresh_envelope_def recount_def List.map_filter_simps)
  from paged_run_grows [OF pr] obtain rq where "grows ?env e1 rq" by blast
  from grows_recorded_once [OF this ro] have "recorded_once e1" .
  then have eq: "mset (request_args e1) = mset (map fst (data e1)) + mset (error_requests e1)"
    by (simp add: recorded_once_def)
  have "\<exists>s. int_start req = Some s \<and> 0 \<le> s" if "req \<in> set (map fst (data e1))" for req
  proof -
    from that have "req \<in># mset (map fst (data e1)) + mset (error_requests e1)"
      by (simp only: set_mset_union set_mset_mset) blast
    then have "req \<in># mset (request_args e1)" by (simp only: eq)
    then have "req \<in> set reqs" using c(1) by simp
    with c(2) obtain s where "int_start req = Some s" "max 0 r \<le> s" by blast
    then show ?thesis by auto
  qed
  then have "\<forall>req \<in> set (map fst (data e1)). \<exists>s. int_start req = Some s \<and> 0 \<le> s"
    by blast
  then show ?thesis by (auto simp: e)
qed

section \<open>Decimal and JSON renderings\<close>

lemma of_char_digit_char: "n < 10 \<Longrightarrow> (of_char (digit_char n) :: nat) = 48 + n"
  by (simp add: digit_char_def)

lemma is_digit_digit_char: "n < 10 \<Longrightarrow> is_digit (digit_char n)"
  by (simp add: is_digit_def of_char_digit_char)

lemma nat_of_digits_snoc:
  "nat_of_digits (s @ [c]) = 10 * nat_of_digits s + (of_char c - 48)"
  by (simp add: nat_of_digits_def)

lemma nat_of_digits_digits: "nat_of_digits (digits n) = n"
proof (induction n rule: digits.induct)
  case (1 n)
  show ?case
  proof (cases "n < 10")
    case True
    then show ?thesis
      by (subst digits.simps) (simp add: nat_of_digits_def of_char_digit_char)
  next
    case False
    with 1 have ih: "nat_of_digits (digits (n div 10)) = n div 10" by simp
    have "n mod 10 < 10" by simp
    then have d: "(of_char (digit_char (n mod 10)) :: nat) - 48 = n mod 10"
      by (simp add: of_char_digit_char)
    from False show ?thesis
      by (subst digits.simps) (simp add: nat_of_digits_snoc ih d)
  qed
qed

lemma digits_all_digit: "list_all is_digit (digits n)"
proof (induction n rule: digits.induct)
  case (1 n)
  show ?case
  proof (cases "n < 10")
    case True
    then show ?thesis by (subst digits.simps) (simp add: is_digit_digit_char)
  next
    case False
    with 1 have "list_all is_digit (digits (n div 10))" by simp
    moreover have "is_digit (digit_char (n mod 10))" by (simp add: is_digit_digit_char)
    ultimately show ?thesis using False by (subst digits.simps) simp
  qed
qed

lemma digits_nonempty: "digits n \<noteq> []"
  by (subst digits.simps) simp

lemma digits_inj: "digits n = digits m \<Longrightarrow> n = m"
  by (metis nat_of_digits_digits)

lemma minus_not_digit: "\<not> is_digit CHR ''-''"
  by (simp add: is_digit_def)

lemma str_int_inj: "str_int i = str_int j \<Longrightarrow> i = j"
proof -
  assume eq: "str_int i = str_int j"
  have nd: "CHR ''-'' # xs \<noteq> digits n" for xs n
  proof
    assume "CHR ''-'' # xs = digits n"
    with digits_all_digit [of n] have "list_all is_digit (CHR ''-'' # xs)" by simp
    then have "is_digit CHR ''-''" by simp
    with minus_not_digit show False by simp
  qed
  show ?thesis
  proof (cases "i < 0")
    case True
    show ?thesis
    proof (cases "j < 0")
      case jn: True
      with True eq have "digits (nat (- i)) = digits (nat (- j))" by (simp add: str_int_def)
      then have "nat (- i) = nat (- j)" by (rule digits_inj)
      with True jn show ?thesis by simp
    next
      case False
      with True eq nd [of "digits (nat (- i))" "nat j"] show ?thesis by (simp add: str_int_def)
    qed
  next
    case False
    show ?thesis
    proof (cases "j < 0")
      case True
      with False eq nd [of "digits (nat (- j))" "nat i"] show ?thesis
        by (auto simp: str_int_def)
    next
      case jp: False
      with False eq have "digits (nat i) = digits (nat j)" by (simp add: str_int_def)
      then have "nat i = nat j" by (rule digits_inj)
      with False jp show ?thesis by simp
    qed
  qed
qed

lemma char_of_small_inj:
  assumes "char_of (n::nat) = char_of (m::nat)" and "n < 256" and "m < 256"
  shows "n = m"
proof -
  from assms(1) have "(of_char (char_of n) :: nat) = of_char (char_of m)" by simp
  then have "n mod 256 = m mod 256" by (simp only: of_char_of)
  with assms(2,3) show ?thesis by simp
qed

lemma hex_char_inj:
  "n < 16 \<Longrightarrow> m < 16 \<Longrightarrow> hex_char n = hex_char m \<Longrightarrow> n = m"
  by (auto simp: hex_char_def split: if_splits dest!: char_of_small_inj)

lemma escape_char_nonempty: "escape_char c \<noteq> []"
  by (simp add: escape_char_def)

lemma low_char_eq:
  assumes "of_char a < (32::nat)" "of_char b < (32::nat)"
    and "hex_char (of_char a div 16) = hex_char (of_char b div 16)"
    and "hex_char (of_char a mod 16) = hex_char (of_char b mod 16)"
  shows "a = b"
proof -
  have "(of_char a :: nat) div 16 = of_char b div 16"
    using assms(1,2,3) by (intro hex_char_inj) auto
  moreover have "(of_char a :: nat) mod 16 = of_char b mod 16"
    using assms(4) by (intro hex_char_inj) auto
  ultimately have "(of_char a :: nat) = of_char b"
    by (metis div_mult_mod_eq)
  then show ?thesis by simp
qed

lemma escape_char_prefix_free:
  "escape_char a @ xs = escape_char b @ ys \<Longrightarrow> a = b"
  by (auto simp: escape_char_def split: if_splits dest: low_char_eq)

lemma escaped_inj:
  "concat (map escape_char s) @ xs = concat (map escape_char t) @ xs \<Longrightarrow> s = t"
proof (induction s arbitrary: t)
  case Nil
  then show ?case
    by (cases t) (auto simp: escape_char_nonempty)
next
  case (Cons a s)
  show ?case
  proof (cases t)
    case Nil
    with Cons.prems show ?thesis by (auto simp: escape_char_nonempty)
  next
    case (Cons b t')
    with Cons.prems
    have eq: "escape_char a @ (concat (map escape_char s) @ xs) =
              escape_char b @ (concat (map escape_char t') @ xs)" by simp
    then have ab: "a = b" by (rule escape_char_prefix_free)
    with eq have "concat (map escape_char s) @ xs = concat (map escape_char t') @ xs" by simp
    then have "s = t'" by (rule Cons.IH)
    with ab Cons show ?thesis by simp
  qed
qed

lemma quote_inj: "quote s = quote t \<Longrightarrow> s = t"
  by (simp add: quote_def escaped_inj)

lemma digits_hd_digit: "is_digit (hd (digits n))"
  using digits_all_digit [of n] digits_nonempty [of n]
  by (cases "digits n") simp_all

lemma str_int_hd: "hd (str_int i) = CHR ''-'' \<or> is_digit (hd (str_int i))"
  by (simp add: str_int_def digits_hd_digit)

lemma dumps_hashable_inj:
  assumes "hashable a" and "hashable b" and "dumps a = dumps b"
  shows "a = b"
proof -
  have h: "hd (str_int i) \<noteq> CHR ''n'' \<and> hd (str_int i) \<noteq> CHR ''t'' \<and>
           hd (str_int i) \<noteq> CHR ''f'' \<and> hd (str_int i) \<noteq> CHR 0x22" for i
    using str_int_hd [of i] by (auto simp: is_digit_def)
  have n1: "str_int i \<noteq> ''null''" "str_int i \<noteq> ''true''" "str_int i \<noteq> ''false''"
       "str_int i \<noteq> quote s" for i s
    using h [of i] by (auto simp: quote_def)
  have q: "quote s \<noteq> ''null''" "quote s \<noteq> ''true''" "quote s \<noteq> ''false''" for s
    by (simp_all add: quote_def)
  from assms show ?thesis
    by (cases a; cases b)
       (auto simp: hashable_def n1 n1 [symmetric] q q [symmetric]
             dest: str_int_inj quote_inj split: if_splits)
qed

lemma request_key_single:
  "request_key [(p, v)] = ''{'' @ quote p @ '':'' @ dumps v @ ''}''"
  by (simp add: request_key_def)

lemma request_key_single_inj:
  assumes "hashable a" and "hashable b" and "request_key [(p, a)] = request_key [(p, b)]"
  shows "a = b"
proof -
  from assms(3) have "dumps a @ ''}'' = dumps b @ ''}''"
    by (simp add: request_key_single)
  then have "dumps a = dumps b" by simp
  with assms(1,2) show ?thesis by (rule dumps_hashable_inj)
qed

section \<open>Request keys of id-based methods\<close>

lemma py_eq_refl: "py_eq a a"
  by (simp add: py_eq_def)

lemma py_set_fold:
  fixes f :: "json list \<Rightarrow> json \<Rightarrow> json list"
  assumes f: "\<And>acc x. f acc x = (if (\<exists>y \<in> set acc. py_eq y x) then acc else acc @ [x])"
  shows "distinct acc \<Longrightarrow> distinct (foldl f acc xs) \<and> set (foldl f acc xs) \<subseteq> set acc \<union> set xs"
proof (induction xs arbitrary: acc)
  case Nil
  then show ?case by simp
next
  case (Cons x xs)
  have d: "distinct (f acc x)" using Cons.prems py_eq_refl by (auto simp: f)
  have s: "set (f acc x) \<subseteq> set acc \<union> {x}" by (auto simp: f)
  from Cons.IH [OF d] have "distinct (foldl f (f acc x) xs)"
    and "set (foldl f (f acc x) xs) \<subseteq> set (f acc x) \<union> set xs" by simp_all
  with s show ?case by (simp del: f) blast
qed

lemma py_set_distinct: "distinct (py_set xs)" and py_set_subset: "set (py_set xs) \<subseteq> set xs"
  using py_set_fold [of "\<lambda>acc x. if (\<exists>y \<in> set acc. py_eq y x) then acc else acc @ [x]" "[]" xs]
  by (simp_all add: py_set_def)

lemma py_sorted_set_result:
  assumes "py_sorted_set xs = Inr ys"
  shows "distinct ys \<and> list_all hashable ys"
proof -
  from assms have h: "list_all hashable xs" by (simp add: py_sorted_set_def split: if_splits)
  then have hs: "list_all hashable (py_set xs)"
    using py_set_subset [of xs] by (auto simp: list_all_iff)
  from assms h have "ys = py_set xs \<or> ys = sort_key num_of (py_set xs) \<or>
      ys = sort_key str_of (py_set xs)"
    by (auto simp: py_sorted_set_def Let_def split: if_splits)
  with py_set_distinct [of xs] hs show ?thesis
    by (auto simp: list_all_iff)
qed

lemma hashable_keys_distinct:
  assumes "distinct ys" and "list_all hashable ys"
  shows "distinct (map (\<lambda>id_value. request_key [(p, id_value)]) ys)"
proof -
  have "inj_on (\<lambda>id_value. request_key [(p, id_value)]) (set ys)"
    using assms(2) by (auto simp: inj_on_def list_all_iff dest: request_key_single_inj)
  with assms(1) show ?thesis by (simp add: distinct_map)
qed

lemma py_sorted_set_keys:
  "py_sorted_set xs = Inr ys \<Longrightarrow> distinct (map (\<lambda>id_value. request_key [(p, id_value)]) ys)"
  using py_sorted_set_result [of xs ys] by (simp add: hashable_keys_distinct)

lemma build_seed_context_lists:
  assumes "build_seed_context c year w = (Inr ctx, w')"
  shows "(\<exists>xs. py_sorted_set xs = Inr (activity_ids ctx)) \<and>
         (\<exists>xs. py_sorted_set xs = Inr (workout_ids ctx)) \<and>
         (\<exists>xs. py_sorted_set xs = Inr (scheduled_workout_ids ctx)) \<and>
         (\<exists>xs. py_sorted_set xs = Inr (device_ids ctx)) \<and>
         (\<exists>xs. py_sorted_set xs = Inr (user_profile_numbers ctx)) \<and>
         (\<exists>xs. py_sorted_set xs = Inr (gear_uuids ctx)) \<and>
         (\<exists>xs. py_sorted_set xs = Inr (plan_ids ctx))"
  using assms
  by (auto simp: build_seed_context_def Let_def split: sum.splits prod.splits)

lemma build_seed_context_keys:
  assumes "build_seed_context c year w = (Inr ctx, w')"
  shows "seed_keys_distinct ctx"
  using build_seed_context_lists [OF assms]
  by (auto simp: seed_keys_distinct_def ID_PARAM_TO_SEED_KEY_def seed_list_def
           dest: py_sorted_set_keys)

lemma build_calls_id_based:
  assumes "build_calls_for_method m sg IdBased ctx incl = Some (Inr (plan, reason))"
    and "seed_keys_distinct ctx"
  shows "distinct (map request_key plan)"
proof (cases "filter (\<lambda>(param, seed_key). param \<in> set (parse_signature_params sg)) ID_PARAM_TO_SEED_KEY")
  case Nil
  with assms(1) show ?thesis by (simp add: build_calls_for_method_def Let_def)
next
  case (Cons ps rest)
  obtain param seed_key where ps: "ps = (param, seed_key)" by (cases ps)
  have "ps \<in> set (filter (\<lambda>(param, seed_key). param \<in> set (parse_signature_params sg)) ID_PARAM_TO_SEED_KEY)"
    by (simp add: Cons)
  then have mem: "(param, seed_key) \<in> set ID_PARAM_TO_SEED_KEY" by (simp add: ps)
  with assms(2) have d: "distinct (map (\<lambda>id_value. request_key [(param, id_value)]) (seed_list ctx seed_key))"
    by (auto simp: seed_keys_distinct_def)
  from assms(1) Cons ps have "plan = [] \<or> plan = map (\<lambda>id_value. [(param, id_value)]) (seed_list ctx seed_key)"
    by (auto simp: build_calls_for_method_def Let_def split: if_splits)
  with d show ?thesis by (auto simp: comp_def)
qed

lemma keys_of_data: "get_completed_request_keys e = map request_key (map fst (data e))"
  by (simp add: get_completed_request_keys_def case_prod_beta comp_def)

lemma distinct_map_submset:
  assumes "mset ys \<subseteq># mset xs" and "distinct (map f xs)"
  shows "distinct (map f ys)"
proof -
  from assms(1) have "image_mset f (mset ys) \<subseteq># image_mset f (mset xs)"
    by (rule image_mset_subseteq_mono)
  then have sub: "mset (map f ys) \<subseteq># mset (map f xs)" by simp
  have "count (mset (map f ys)) a = (if a \<in> set (map f ys) then 1 else 0)" for a
  proof (cases "a \<in> set (map f ys)")
    case True
    then have "a \<in># mset (map f ys)" by (simp only: set_mset_mset)
    then have lo: "1 \<le> count (mset (map f ys)) a" by (simp only: count_greater_eq_one_iff)
    from sub have "count (mset (map f ys)) a \<le> count (mset (map f xs)) a"
      by (rule mset_subset_eq_count)
    also from assms(2) have "\<dots> \<le> 1" by (simp only: distinct_count_atmost_1) simp
    finally have "count (mset (map f ys)) a \<le> 1" .
    with lo have "count (mset (map f ys)) a = 1" by (rule le_antisym [rotated])
    with True show ?thesis by (simp only: if_True)
  next
    case False
    then have "a \<notin># mset (map f ys)" by (simp only: set_mset_mset) simp
    then have "count (mset (map f ys)) a = 0" by (simp only: count_eq_zero_iff) simp
    with False show ?thesis by (simp only: if_False)
  qed
  then show ?thesis by (simp only: distinct_count_atmost_1) simp
qed


lemma start_keys_distinct:
  assumes "case existing of None \<Rightarrow> True | Some e0 \<Rightarrow> keys_distinct e0"
  shows "keys_distinct (start_envelope spec ctx ct existing)"
proof (cases "fresh_start spec existing")
  case True
  then show ?thesis by (simp add: keys_distinct_def keys_of_data start_envelope_lists)
next
  case False
  then obtain e0 where "existing = Some e0" by (cases existing) (auto simp: fresh_start_def)
  with assms False show ?thesis
    by (simp add: keys_distinct_def keys_of_data start_envelope_lists)
qed

lemma seed_cache_keys:
  assumes p: "path_taken spec ctx incl existing = SeedCachePath"
    and run: "execute_method_for_year c spec ctx incl out existing w = Some (Inr e, w')"
  shows "keys_distinct e \<and> calls w' = calls w"
proof -
  let ?env = "start_envelope spec ctx (classify_call_type (spec_method spec) (signature spec)) existing"
  from execute_seed_cache [OF p, of c out w] obtain cached e2 where
    hit: "seed_cache_hit ctx (spec_method spec) ?env = Some cached"
    and e2: "data e2 = data ?env @ [([(''source'', JStr ''seed_cache'')], serialize_response_data cached)]"
    and r: "execute_method_for_year c spec ctx incl out existing w = Some (Inr e2, write_json out e2 w)"
    by fastforce
  from r run have e: "e = e2" and w: "w' = write_json out e2 w" by simp_all
  from hit have "success_calls (stats ?env) = 0"
    by (auto simp: seed_cache_hit_def split: option.splits if_splits)
  with start_envelope_counters [of spec ctx _ existing] have "data ?env = []"
    by (simp add: counters_ok_def)
  with e2 e have "keys_distinct e" by (simp add: keys_distinct_def keys_of_data)
  with w show ?thesis by simp
qed


lemma skip_keys:
  assumes p: "path_taken spec ctx incl existing = SkipPath"
    and kd: "keys_distinct (start_envelope spec ctx
               (classify_call_type (spec_method spec) (signature spec)) existing)"
    and run: "execute_method_for_year c spec ctx incl out existing w = Some (Inr e, w')"
  shows "keys_distinct e \<and> calls w' = calls w"
proof -
  let ?env = "start_envelope spec ctx (classify_call_type (spec_method spec) (signature spec)) existing"
  from execute_skip [OF p, of c out w] obtain reason e1 where
    e1: "e1 = recount (?env\<lparr>status := Skipped, errors := errors ?env @ [(None, reason)]\<rparr>)"
    and r: "execute_method_for_year c spec ctx incl out existing w = Some (Inr e1, write_json out e1 w)"
    by blast
  from r run have e: "e = e1" and w: "w' = write_json out e1 w" by simp_all
  from e1 have "data e1 = data ?env" by (simp add: recount_def)
  with kd e have "keys_distinct e" by (simp add: keys_distinct_def keys_of_data)
  with w show ?thesis by simp
qed

lemma sequential_keys:
  assumes p: "path_taken spec ctx incl existing = SequentialPath"
    and ct: "classify_call_type (spec_method spec) (signature spec) = IdBased"
    and seeds: "seed_keys_distinct ctx"
    and kd: "keys_distinct (start_envelope spec ctx IdBased existing)"
    and run: "execute_method_for_year c spec ctx incl out existing w = Some (Inr e, w')"
  shows "keys_distinct e \<and>
         (\<exists>new. calls w' = calls w @ new \<and>
            (\<forall>cl \<in> set new. fst cl = spec_method spec \<and>
               request_key (snd cl) \<notin>
                 set (get_completed_request_keys (start_envelope spec ctx IdBased existing))))"
proof -
  let ?env = "start_envelope spec ctx IdBased existing"
  let ?pending = "\<lambda>plan. filter (\<lambda>kwargs. request_key kwargs \<notin> set (get_completed_request_keys ?env)) plan"
  from execute_sequential [OF p, of c out w] obtain plan reason e1 w1 where
    bc: "build_calls_for_method (spec_method spec) (signature spec) IdBased ctx incl
           = Some (Inr (plan, reason))"
    and ex: "execute_calls c (spec_method spec) out (?pending plan) ?env w = (e1, w1)"
    and r: "execute_method_for_year c spec ctx incl out existing w =
              Some (Inr (e1\<lparr>status := final_status (stats e1)\<rparr>), w1)"
    unfolding ct by blast
  from r run have e: "e = e1\<lparr>status := final_status (stats e1)\<rparr>" and w: "w' = w1" by simp_all
  have dp: "distinct (map request_key plan)" by (rule build_calls_id_based [OF bc seeds])
  from execute_calls_grows [OF ex] have g: "grows ?env e1 (?pending plan)" by simp
  from g [unfolded grows_def] obtain ds es where
    d: "data e1 = data ?env @ ds" "errors e1 = errors ?env @ es"
       "mset (?pending plan) = mset (map fst ds) + mset (List.map_filter fst es)"
    by blast
  have sub: "mset (map fst ds) \<subseteq># mset (?pending plan)"
    unfolding d(3) by (rule mset_subset_eq_add_left)
  have "distinct (map request_key (?pending plan))"
    using dp by (simp add: distinct_map_filter)
  with sub have d1: "distinct (map request_key (map fst ds))" by (rule distinct_map_submset)
  from sub have "set_mset (mset (map fst ds)) \<subseteq> set_mset (mset (?pending plan))"
    by (rule set_mset_mono)
  then have ss: "set (map fst ds) \<subseteq> set (?pending plan)"
    by (simp only: set_mset_mset)
  have d2: "request_key (fst x) \<notin> set (get_completed_request_keys ?env)" if "x \<in> set ds" for x
  proof -
    from that have "fst x \<in> set (map fst ds)" by simp
    with ss have "fst x \<in> set (?pending plan)" by (rule subsetD)
    then show ?thesis by simp
  qed
  have "data e = data ?env @ ds" by (simp add: e d(1))
  then have "get_completed_request_keys e =
               get_completed_request_keys ?env @ map request_key (map fst ds)"
    by (simp add: keys_of_data)
  moreover have "set (get_completed_request_keys ?env) \<inter> set (map request_key (map fst ds)) = {}"
    using d2 by auto
  ultimately have kde: "keys_distinct e"
    using kd d1 by (simp add: keys_distinct_def)
  from execute_calls_world [OF ex] obtain new where
    n1: "calls w1 = calls w @ new"
    and n2: "\<forall>cl \<in> set new. fst cl = spec_method spec \<and> snd cl \<in> set (?pending plan)"
    by blast
  have n3: "fst cl = spec_method spec \<and>
            request_key (snd cl) \<notin> set (get_completed_request_keys ?env)"
    if "cl \<in> set new" for cl
  proof -
    from n2 that have "fst cl = spec_method spec" and "snd cl \<in> set (?pending plan)" by auto
    then show ?thesis by simp
  qed
  from n1 w have "calls w' = calls w @ new" by simp
  with kde n3 show ?thesis by blast
qed


lemma execute_calls_method:
  "execute_calls c m out kws e w = (e', w') \<Longrightarrow> env_method e' = env_method e"
proof (induction kws arbitrary: e w)
  case Nil
  then show ?case by simp
next
  case (Cons kw kws)
  obtain e1 w1 where st: "execute_call c m out kw e w = (e1, w1)"
    by (cases "execute_call c m out kw e w")
  then have "env_method e1 = env_method e"
    by (auto simp: execute_call_def recount_def Let_def split: prod.splits sum.splits)
  moreover from Cons.prems st have "execute_calls c m out kws e1 w1 = (e', w')" by simp
  then have "env_method e' = env_method e1" by (rule Cons.IH)
  ultimately show ?case by simp
qed

lemma start_envelope_method: "env_method (start_envelope spec ctx ct existing) = spec_method spec"
  by (simp add: start_envelope_def recount_def fresh_envelope_def split: option.splits)

lemma id_based_run:
  assumes ct: "classify_call_type (spec_method spec) (signature spec) = IdBased"
    and seeds: "seed_keys_distinct ctx"
    and prior: "case existing of None \<Rightarrow> True | Some e0 \<Rightarrow> keys_distinct e0"
    and run: "execute_method_for_year c spec ctx incl out existing w = Some (Inr e, w')"
  shows "keys_distinct e \<and> env_method e = spec_method spec \<and>
         (\<exists>new. calls w' = calls w @ new \<and>
            (\<forall>cl \<in> set new. fst cl = spec_method spec \<and>
               request_key (snd cl) \<notin>
                 set (get_completed_request_keys (start_envelope spec ctx IdBased existing))))"
proof -
  let ?env = "start_envelope spec ctx IdBased existing"
  have kd: "keys_distinct ?env" by (rule start_keys_distinct [OF prior])
  have nil: "\<exists>new. calls w' = calls w @ new \<and>
            (\<forall>cl \<in> set new. fst cl = spec_method spec \<and>
               request_key (snd cl) \<notin> set (get_completed_request_keys ?env))"
    if "calls w' = calls w"
    using that by (intro exI [of _ "[]"]) simp
  show ?thesis
  proof (cases "path_taken spec ctx incl existing")
    case SeedCachePath
    from execute_seed_cache [OF SeedCachePath, of c out w] run
    have "env_method e = env_method (start_envelope spec ctx
             (classify_call_type (spec_method spec) (signature spec)) existing)"
      by auto
    then have "env_method e = spec_method spec" by (simp only: start_envelope_method)
    with seed_cache_keys [OF SeedCachePath run] nil show ?thesis by blast
  next
    case PagedPath
    from path_paged_type [OF PagedPath] ct show ?thesis by simp
  next
    case SkipPath
    from execute_skip [OF SkipPath, of c out w] run
    have "env_method e = env_method (start_envelope spec ctx
             (classify_call_type (spec_method spec) (signature spec)) existing)"
      by (auto simp: recount_def)
    then have "env_method e = spec_method spec" by (simp only: start_envelope_method)
    with skip_keys [OF SkipPath _ run] kd ct nil show ?thesis by auto
  next
    case SequentialPath
    from execute_sequential [OF SequentialPath, of c out w] run obtain kws e1 w1 where
      "execute_calls c (spec_method spec) out kws (start_envelope spec ctx
             (classify_call_type (spec_method spec) (signature spec)) existing) w = (e1, w1)"
      and "e = e1\<lparr>status := final_status (stats e1)\<rparr>"
      by auto
    then have "env_method e = spec_method spec"
      using execute_calls_method start_envelope_method by fastforce
    with sequential_keys [OF SequentialPath ct seeds kd run] show ?thesis by blast
  next
    case RaisePath
    from execute_raise [OF RaisePath, of c out w] run show ?thesis by auto
  qed
qed


text \<open>
  Claim C5. Let a method be classified id-based, let the id lists of the seed context give
  pairwise different request keys (they do in every context that \<^verbatim>\<open>build_seed_context\<close>
  returns), and let the prior envelope, if there is one, hold no two data items with the same
  request key. Then the envelope a run returns holds no two data items with the same request
  key, and every call the run issues is a call of this method whose request key is the key
  of no data item the run started with. So it is again after a second run over the same seed
  context that resumes from the envelope of the first: its data items have pairwise different
  keys, and none of its calls repeats a request that the first run completed.
\<close>

theorem id_based_keys_unique:
  assumes ct: "classify_call_type (spec_method spec) (signature spec) = IdBased"
    and seeds: "seed_keys_distinct ctx"
    and prior: "case existing of None \<Rightarrow> True | Some e0 \<Rightarrow> keys_distinct e0"
    and run: "execute_method_for_year c spec ctx incl out existing w = Some (Inr e, w')"
  shows "keys_distinct e \<and>
         (\<exists>new. calls w' = calls w @ new \<and>
            (\<forall>cl \<in> set new. fst cl = spec_method spec \<and>
               request_key (snd cl) \<notin>
                 set (get_completed_request_keys (start_envelope spec ctx IdBased existing)))) \<and>
         (execute_method_for_year c2 spec ctx incl2 out2 (Some e) w2 = Some (Inr e2, w2') \<longrightarrow>
            keys_distinct e2 \<and>
            (\<exists>new. calls w2' = calls w2 @ new \<and>
               (\<forall>cl \<in> set new. fst cl = spec_method spec \<and>
                  request_key (snd cl) \<notin> set (get_completed_request_keys e)))) \<and>
         (build_seed_context c0 year0 w0 = (Inr ctx0, w0') \<longrightarrow> seed_keys_distinct ctx0)"
proof -
  from id_based_run [OF ct seeds prior run]
  have kd: "keys_distinct e" and m: "env_method e = spec_method spec"
    and new: "\<exists>new. calls w' = calls w @ new \<and>
            (\<forall>cl \<in> set new. fst cl = spec_method spec \<and>
               request_key (snd cl) \<notin>
                 set (get_completed_request_keys (start_envelope spec ctx IdBased existing)))"
    by blast+
  from m have "data (start_envelope spec ctx IdBased (Some e)) = data e"
    by (simp add: start_envelope_lists fresh_start_def)
  then have keys: "get_completed_request_keys (start_envelope spec ctx IdBased (Some e)) =
                   get_completed_request_keys e"
    by (simp add: keys_of_data)
  have second: "keys_distinct e2 \<and>
            (\<exists>new. calls w2' = calls w2 @ new \<and>
               (\<forall>cl \<in> set new. fst cl = spec_method spec \<and>
                  request_key (snd cl) \<notin> set (get_completed_request_keys e)))"
    if r2: "execute_method_for_year c2 spec ctx incl2 out2 (Some e) w2 = Some (Inr e2, w2')"
  proof -
    have p2: "case Some e of None \<Rightarrow> True | Some e0 \<Rightarrow> keys_distinct e0" using kd by simp
    from id_based_run [OF ct seeds p2 r2] show ?thesis unfolding keys by blast
  qed
  have built: "seed_keys_distinct ctx0" if "build_seed_context c0 year0 w0 = (Inr ctx0, w0')"
    using that by (rule build_seed_context_keys)
  from kd new second built show ?thesis by blast
qed

lemma classify_activity: "classify_call_type ''get_activity'' ''get_activity(activity_id)'' = IdBased"
  by code_simp

lemma ctx_ids_keys: "seed_keys_distinct ctx_ids"
  by code_simp

lemma activity_keys:
  "request_key [(''activity_id'', JInt 6)] \<noteq> request_key [(''activity_id'', JInt 5)]"
  by code_simp

lemma params_activity: "parse_signature_params ''get_activity(activity_id)'' = [''activity_id'']"
  by code_simp

lemma activity_first_run:
  "execute_method_for_year picky_client spec_activity ctx_ids True None None world_init =
     Some (Inr first_activity, first_activity_world)"
  by (simp add: execute_method_for_year_def spec_activity_def classify_activity start_envelope_def
      fresh_envelope_def recount_def seed_cache_hit_def ctx_ids_def ctx_plain_def
      build_calls_for_method_def ID_PARAM_TO_SEED_KEY_def seed_list_def
      params_activity
      get_completed_request_keys_def execute_call_def safe_call_def invoke_def picky_client_def
      is_client_error_def world_init_def first_activity_def first_activity_world_def
      final_status_def write_json_def serialize_response_data_def
      eval_nat_numeral Let_def)


lemma activity_second_run:
  "execute_method_for_year picky_client spec_activity ctx_ids True None (Some first_activity)
     first_activity_world =
   Some (Inr (first_activity
               \<lparr>request_args := [[(''activity_id'', JInt 5)], [(''activity_id'', JInt 6)],
                                 [(''activity_id'', JInt 6)]],
                errors := [(Some [(''activity_id'', JInt 6)], ''503 Server Error''),
                           (Some [(''activity_id'', JInt 6)], ''503 Server Error'')],
                stats := \<lparr>attempted_calls = 3, success_calls = 1, failed_calls = 2,
                          duration_seconds = 5\<rparr>\<rparr>),
         first_activity_world
           \<lparr>calls := [(''get_activity'', [(''activity_id'', JInt 5)]),
                      (''get_activity'', [(''activity_id'', JInt 6)]),
                      (''get_activity'', [(''activity_id'', JInt 6)]),
                      (''get_activity'', [(''activity_id'', JInt 6)]),
                      (''get_activity'', [(''activity_id'', JInt 6)])], clock := 5\<rparr>)"
  by (simp add: execute_method_for_year_def spec_activity_def classify_activity start_envelope_def
      fresh_envelope_def recount_def seed_cache_hit_def ctx_ids_def ctx_plain_def
      build_calls_for_method_def ID_PARAM_TO_SEED_KEY_def seed_list_def
      params_activity activity_keys
      get_completed_request_keys_def execute_call_def safe_call_def invoke_def picky_client_def
      is_client_error_def world_init_def first_activity_def first_activity_world_def
      final_status_def write_json_def serialize_response_data_def
      eval_nat_numeral Let_def)

theorem id_based_keys_unique_witness:
  "classify_call_type (spec_method spec_activity) (signature spec_activity) = IdBased \<and>
   seed_keys_distinct ctx_ids \<and>
   execute_method_for_year picky_client spec_activity ctx_ids True None None world_init =
     Some (Inr first_activity, first_activity_world) \<and>
   keys_distinct first_activity \<and>
   (case execute_method_for_year picky_client spec_activity ctx_ids True None
           (Some first_activity) first_activity_world of
      Some (Inr e2, w2) \<Rightarrow>
        keys_distinct e2 \<and> map fst (data e2) = [[(''activity_id'', JInt 5)]] \<and>
        drop (length (calls first_activity_world)) (calls w2) =
          [(''get_activity'', [(''activity_id'', JInt 6)]),
           (''get_activity'', [(''activity_id'', JInt 6)])]
    | _ \<Rightarrow> False)"
proof -
  have ct: "classify_call_type (spec_method spec_activity) (signature spec_activity) = IdBased"
    by (simp add: spec_activity_def classify_activity)
  have prior: "case None of None \<Rightarrow> True | Some e0 \<Rightarrow> keys_distinct e0" by simp
  from id_based_keys_unique [OF ct ctx_ids_keys prior activity_first_run,
      where ?c2.0 = picky_client and ?incl2.0 = True and ?out2.0 = None
        and ?w2.0 = first_activity_world]
    activity_second_run
  have k: "keys_distinct first_activity"
    and k2: "keys_distinct (first_activity
               \<lparr>request_args := [[(''activity_id'', JInt 5)], [(''activity_id'', JInt 6)],
                                 [(''activity_id'', JInt 6)]],
                errors := [(Some [(''activity_id'', JInt 6)], ''503 Server Error''),
                           (Some [(''activity_id'', JInt 6)], ''503 Server Error'')],
                stats := \<lparr>attempted_calls = 3, success_calls = 1, failed_calls = 2,
                          duration_seconds = 5\<rparr>\<rparr>)"
    by blast+
  show ?thesis
    unfolding activity_second_run
    using ct ctx_ids_keys activity_first_run k k2
    by (simp add: first_activity_def first_activity_world_def world_init_def)
qed

end

